theory Spec2Isabelle
  imports Complex_Main
begin

section \<open>Data model of \<open>src/structs/MusicQueue.ts\<close>\<close>

text \<open>
  The class \<open>MusicQueue\<close> is a set of event handlers over one mutable object. The
  handlers are \<open>async\<close>: each runs synchronously up to its first \<open>await\<close>, and its
  continuation runs later, on whatever the fields hold by then. Every handler is therefore
  embedded as one function per synchronous segment: the segment takes the session, returns
  the updated session, the calls it made on the external objects (in order), and how it
  ended.
\<close>

text \<open>
  Modelled from the spec: the status enumeration of the external player (section 6,
  "Player (external): exposes state {Idle, Buffering, Playing, Paused}"); its declaration
  lives in the voice library, not in the repository.
\<close>

datatype player_status = Idle | Buffering | Playing | Paused

text \<open>
  Modelled from the spec: the status enumeration of the external transport connection
  (section 6) and the disconnect reason with its close code carried by a
  \<open>Disconnected\<close> state. Only the reason \<open>WebSocketClose\<close> is named by the source
  (line 38); every other reason is \<open>OtherReason\<close>. A field the state does not carry is
  \<open>None\<close> (\<open>undefined\<close> in the source, which is \<open>===\<close> to nothing but itself).
\<close>

datatype connection_status = Signalling | Connecting | Ready | Disconnected | Destroyed

datatype disconnect_reason = WebSocketClose | OtherReason

record connection_state =
  status :: connection_status
  reason :: "disconnect_reason option"
  closeCode :: "int option"

text \<open>
  An audio resource: the track it was made from (\<open>metadata\<close>) and its optional volume
  control (\<open>resource.volume?\<close>), which holds the argument of the last
  \<open>setVolumeLogarithmic\<close> call. The source computes that argument as
  \<open>this.volume / 100\<close>; it is kept here as the exact quotient.
\<close>

record 'song audio_resource =
  metadata :: 'song
  volume_ctl :: "rat option"

text \<open>Line 128, 192, 195, 205, 216: \<open>resource.volume?.setVolumeLogarithmic(g)\<close>.\<close>

definition setVolumeLogarithmic :: "rat \<Rightarrow> 'song audio_resource \<Rightarrow> 'song audio_resource" where
  "setVolumeLogarithmic g r =
     (case volume_ctl r of None \<Rightarrow> r | Some _ \<Rightarrow> r\<lparr>volume_ctl := Some g\<rparr>)"

text \<open>
  The fields of the class (lines 14 to 27). \<open>player_status\<close>,
  \<open>connection_status\<close> and \<open>rejoinAttempts\<close> are what the external objects
  report when a handler reads \<open>this.player.state.status\<close>,
  \<open>this.connection.state.status\<close> and \<open>this.connection.rejoinAttempts\<close>; no
  handler of this file assigns them. \<open>volume\<close> is an integer, as in the spec's data
  model (section 3): the source only ever adds or subtracts 10 and clamps.
\<close>

record 'song session =
  songs :: "'song list"
  volume :: int
  loop :: bool
  muted :: bool
  resource :: "'song audio_resource option"
  waitTimeout :: "nat option"
  queueLock :: bool
  readyLock :: bool
  player_status :: player_status
  connection_status :: connection_status
  rejoinAttempts :: nat

datatype message = QueueEnded | MutedSong | UnmutedSong | DecreasedVolume int | IncreasedVolume int

text \<open>The calls a handler makes on the external objects, in the order it makes them.\<close>

datatype 'song effect =
    PlayerPlay "'song audio_resource option"
  | PlayerStop
  | MakeResource 'song
  | ConsoleError
  | ConsoleLog
  | Wait nat
  | EntersStateReady nat
  | ConnectionRejoin
  | ConnectionDestroy
  | Send message
  | SendPlayingMessage
  | ClearTimeout nat
  | RemoveReaction
  | ExecuteCommand string
  | CollectorStop

text \<open>
  How a synchronous segment ends: the handler returned, it is suspended at an \<open>await\<close>,
  or it raised (an \<open>async\<close> handler then rejects its promise).
\<close>

datatype completion = Returned | Awaiting | Raised

section \<open>The queue processor\<close>

text \<open>\<open>stop()\<close>, lines 101 to 108. The argument is \<open>config.PRUNING\<close>.\<close>

definition stop :: "bool \<Rightarrow> 'song session \<Rightarrow> 'song session \<times> 'song effect list" where
  "stop pruning s =
     (s\<lparr>loop := False, songs := []\<rparr>,
      PlayerStop # (if \<not> pruning then [Send QueueEnded] else []))"

text \<open>
  \<open>processQueue()\<close>, lines 110 to 124: the segment up to
  \<open>await next.makeResource()\<close>.
\<close>

definition processQueue ::
  "bool \<Rightarrow> 'song session \<Rightarrow> 'song session \<times> 'song effect list \<times> completion" where
  "processQueue pruning s =
     (if queueLock s \<or> player_status s \<noteq> Idle then (s, [], Returned)
      else case songs s of
        [] \<Rightarrow> (let (s', es) = stop pruning s in (s', es, Returned))
      | next # _ \<Rightarrow> (s\<lparr>queueLock := True\<rparr>, [MakeResource next], Awaiting))"

text \<open>
  What the environment answers to one resource-creation attempt: \<open>makeResource\<close>
  rejects; it resolves with \<open>undefined\<close> (the source asserts \<open>resource!\<close>), and then
  line 127 or at the latest \<open>this.resource.volume\<close> on line 128 raises; it resolves
  with a resource that \<open>player.play\<close> refuses by raising; or it resolves with a
  resource that is played.
\<close>

datatype 'song attempt =
    MakeRejected
  | MakeVoid
  | PlayRaises "'song audio_resource"
  | Plays "'song audio_resource"

text \<open>
  The \<open>catch\<close> and \<open>finally\<close> blocks, lines 129 to 135: log, evaluate the
  recursive call \<open>this.processQueue()\<close> (its synchronous segment), and only then
  release the lock.
\<close>

definition processQueue_catch ::
  "bool \<Rightarrow> 'song session \<Rightarrow> 'song session \<times> 'song effect list \<times> completion" where
  "processQueue_catch pruning s =
     (let (s', es, c) = processQueue pruning s
      in (s'\<lparr>queueLock := False\<rparr>, ConsoleError # es, c))"

text \<open>
  \<open>processQueue()\<close>, lines 124 to 135: the continuation once the awaited
  \<open>makeResource\<close> has settled.
\<close>

definition processQueue_resume ::
  "bool \<Rightarrow> 'song attempt \<Rightarrow> 'song session \<Rightarrow> 'song session \<times> 'song effect list \<times> completion" where
  "processQueue_resume pruning a s =
     (case a of
        MakeRejected \<Rightarrow> processQueue_catch pruning s
      | MakeVoid \<Rightarrow>
          (let (s', es, c) = processQueue_catch pruning (s\<lparr>resource := None\<rparr>)
           in (s', PlayerPlay None # es, c))
      | PlayRaises r \<Rightarrow>
          (let (s', es, c) = processQueue_catch pruning (s\<lparr>resource := Some r\<rparr>)
           in (s', PlayerPlay (Some r) # es, c))
      | Plays r \<Rightarrow>
          (s\<lparr>resource := Some (setVolumeLogarithmic (of_int (volume s) / 100) r),
             queueLock := False\<rparr>,
           [PlayerPlay (Some r)], Returned))"

text \<open>\<open>enqueue(...songs)\<close>, lines 95 to 99.\<close>

definition enqueue ::
  "bool \<Rightarrow> 'song list \<Rightarrow> 'song session \<Rightarrow> 'song session \<times> 'song effect list \<times> completion" where
  "enqueue pruning new s =
     (let (s', es, c) = processQueue pruning (s\<lparr>songs := songs s @ new\<rparr>)
      in (s', (case waitTimeout s of None \<Rightarrow> [] | Some t \<Rightarrow> [ClearTimeout t]) @ es, c))"

section \<open>The player lifecycle machine\<close>

text \<open>
  Lines 72 to 76 and 86 to 90: \<open>this.songs.push(this.songs.shift()!)\<close> when looping
  over a non-empty queue, \<open>this.songs.shift()\<close> otherwise (which leaves an empty
  array empty).
\<close>

definition advance :: "'song session \<Rightarrow> 'song session" where
  "advance s =
     (if loop s \<and> songs s \<noteq> [] then s\<lparr>songs := tl (songs s) @ [hd (songs s)]\<rparr>
      else s\<lparr>songs := (case songs s of [] \<Rightarrow> [] | _ # rest \<Rightarrow> rest)\<rparr>)"

text \<open>The player's \<open>stateChange\<close> handler, lines 70 to 82.\<close>

definition player_stateChange ::
  "bool \<Rightarrow> player_status \<Rightarrow> player_status \<Rightarrow> 'song session
     \<Rightarrow> 'song session \<times> 'song effect list \<times> completion" where
  "player_stateChange pruning oldStatus newStatus s =
     (if oldStatus \<noteq> Idle \<and> newStatus = Idle then
        (let s1 = advance s
         in if songs s1 \<noteq> [] \<or> resource s1 \<noteq> None then processQueue pruning s1
            else (s1, [], Returned))
      else if oldStatus = Buffering \<and> newStatus = Playing then (s, [SendPlayingMessage], Returned)
      else (s, [], Returned))"

text \<open>The player's \<open>error\<close> handler, lines 84 to 92.\<close>

definition player_error ::
  "bool \<Rightarrow> 'song session \<Rightarrow> 'song session \<times> 'song effect list \<times> completion" where
  "player_error pruning s =
     (let (s', es, c) = processQueue pruning (advance s) in (s', ConsoleError # es, c))"

section \<open>The connection lifecycle machine\<close>

text \<open>
  What the external calls of one \<open>stop()\<close> do (lines 104 and 106): both return;
  \<open>this.player.stop()\<close> raises; or \<open>this.textChannel.send(...)\<close> raises, which is
  reached only when not pruning. \<open>stop_attempt\<close> is \<open>stop()\<close> with that outcome: the two
  assignments of lines 102 and 103 precede every call. With \<open>StopReturns\<close> it is \<open>stop\<close>.
\<close>

datatype stop_outcome = StopReturns | PlayerStopRaises | SendRaises

definition stop_attempt ::
  "bool \<Rightarrow> stop_outcome \<Rightarrow> 'song session \<Rightarrow> 'song session \<times> 'song effect list \<times> completion" where
  "stop_attempt pruning out s =
     (case out of
        StopReturns \<Rightarrow> (let (s', es) = stop pruning s in (s', es, Returned))
      | PlayerStopRaises \<Rightarrow> (s\<lparr>loop := False, songs := []\<rparr>, [PlayerStop], Raised)
      | SendRaises \<Rightarrow>
          (if pruning then (s\<lparr>loop := False, songs := []\<rparr>, [PlayerStop], Returned)
           else (s\<lparr>loop := False, songs := []\<rparr>, [PlayerStop, Send QueueEnded], Raised)))"

text \<open>\<open>this.connection.destroy()\<close>, which may raise.\<close>

definition connection_destroy :: "bool \<Rightarrow> 'song effect list \<times> completion" where
  "connection_destroy raises = ([ConnectionDestroy], if raises then Raised else Returned)"

text \<open>
  What the environment answers to the calls of one run of the connection's handler: the
  outcome of the \<open>stop()\<close> of line 40, the outcome of the \<open>stop()\<close> of line 43, and
  whether the \<open>destroy()\<close> of line 49 raises.
\<close>

record disconnect_answers =
  first_stop :: stop_outcome
  second_stop :: stop_outcome
  destroy_raises :: bool

text \<open>
  The connection's \<open>stateChange\<close> handler, lines 36 to 57: the segment up to
  \<open>await wait(...)\<close> (line 46) or \<open>await voice.entersState(...)\<close> (line 57). On a
  terminal disconnect, lines 39 to 44: \<open>stop()\<close> is tried; if it raises, the error is
  logged with \<open>console.log\<close> and \<open>stop()\<close> is called again, outside any \<open>try\<close>, so
  that what the second call raises rejects the handler.
\<close>

definition connection_stateChange ::
  "bool \<Rightarrow> connection_state \<Rightarrow> disconnect_answers \<Rightarrow> 'song session
     \<Rightarrow> 'song session \<times> 'song effect list \<times> completion" where
  "connection_stateChange pruning newState ans s =
     (if status newState = Disconnected then
        (if reason newState = Some WebSocketClose \<and> closeCode newState = Some 4014 then
           (let (s1, es1, c1) = stop_attempt pruning (first_stop ans) s
            in if c1 = Raised then
                 (let (s2, es2, c2) = stop_attempt pruning (second_stop ans) s1
                  in (s2, es1 @ ConsoleLog # es2, c2))
               else (s1, es1, c1))
         else if rejoinAttempts s < 5 then
           (s, [Wait ((rejoinAttempts s + 1) * 5000)], Awaiting)
         else (let (es, c) = connection_destroy (destroy_raises ans) in (s, es, c)))
      else if \<not> readyLock s \<and> (status newState = Connecting \<or> status newState = Signalling) then
        (s\<lparr>readyLock := True\<rparr>, [EntersStateReady 20000], Awaiting)
      else (s, [], Returned))"

text \<open>Line 47: the continuation once the back-off delay has elapsed.\<close>

definition backoff_resume :: "'song session \<Rightarrow> 'song session \<times> 'song effect list \<times> completion" where
  "backoff_resume s = (s, [ConnectionRejoin], Returned)"

text \<open>
  Lines 57 to 66: the continuation once \<open>entersState\<close> has settled. It resolves when
  \<open>Ready\<close> is reached and rejects on the 20 s timeout or on any other error. The
  second argument says whether \<open>this.connection.destroy()\<close> raises when called;
  the \<open>finally\<close> block of line 65 runs on every path.
\<close>

datatype ready_wait = ReadyReached | ReadyTimeout | ReadyError

text \<open>Lines 60 to 62: \<open>try { ... } catch {}\<close>, which swallows what its body raises.\<close>

definition swallow :: "'song effect list \<times> completion \<Rightarrow> 'song effect list \<times> completion" where
  "swallow r = (case r of (es, Raised) \<Rightarrow> (es, Returned) | _ \<Rightarrow> r)"

definition ready_resume ::
  "ready_wait \<Rightarrow> bool \<Rightarrow> 'song session \<Rightarrow> 'song session \<times> 'song effect list \<times> completion" where
  "ready_resume w destroyRaises s =
     (let (es, c) =
        (case w of
           ReadyReached \<Rightarrow> ([], Returned)
         | _ \<Rightarrow>
             (if connection_status s \<noteq> Destroyed
              then swallow (connection_destroy destroyRaises)
              else ([], Returned)))
      in (s\<lparr>readyLock := False\<rparr>, es, c))"

section \<open>The control listener\<close>

datatype emoji = Skip | PlayPause | Mute | VolumeDown | VolumeUp | LoopToggle | Shuffle | Stop | Unrecognised

text \<open>
  The collector's \<open>collect\<close> handler, lines 172 to 241: the segment after
  \<open>await ...members.fetch(user)\<close> (the guard \<open>!this.songs\<close> of line 168 is false for
  every array). The second argument is the answer of the external
  \<open>canModifyQueue(member)\<close>. A delegated command is recorded as a call; what it
  does to the session is outside this file.

  \<open>apply_gain\<close> is the common tail of the mute and volume cases (lines 192 to 193, 195
  to 196, 205 to 208, 216 to 219): \<open>this.resource.volume?.setVolumeLogarithmic(g)\<close>, then
  the notice. Evaluating \<open>this.resource.volume\<close> raises a \<open>TypeError\<close> when no resource
  has been stored yet. Its list of calls starts with the removal of the reaction, which
  every case makes first.
\<close>

definition apply_gain ::
  "rat \<Rightarrow> message \<Rightarrow> 'song session \<Rightarrow> 'song session \<times> 'song effect list \<times> completion" where
  "apply_gain g msg s =
     (case resource s of
        None \<Rightarrow> (s, [RemoveReaction], Raised)
      | Some r \<Rightarrow>
          (s\<lparr>resource := Some (setVolumeLogarithmic g r)\<rparr>, [RemoveReaction, Send msg], Returned))"

definition collect ::
  "emoji \<Rightarrow> bool \<Rightarrow> 'song session \<Rightarrow> 'song session \<times> 'song effect list \<times> completion" where
  "collect e canModify s =
     (case e of
        Skip \<Rightarrow> (s, [RemoveReaction, ExecuteCommand ''skip''], Returned)
      | PlayPause \<Rightarrow>
          (s, [RemoveReaction,
               ExecuteCommand (if player_status s = Playing then ''pause'' else ''resume'')],
           Returned)
      | Mute \<Rightarrow>
          (if \<not> canModify then (s, [RemoveReaction], Returned)
           else let s1 = s\<lparr>muted := \<not> muted s\<rparr>
                in if muted s1 then apply_gain 0 MutedSong s1
                   else apply_gain (of_int (volume s1) / 100) UnmutedSong s1)
      | VolumeDown \<Rightarrow>
          (if volume s = 0 then (s, [RemoveReaction], Returned)
           else if \<not> canModify then (s, [RemoveReaction], Returned)
           else let s1 = s\<lparr>volume := max (volume s - 10) 0\<rparr>
                in apply_gain (of_int (volume s1) / 100) (DecreasedVolume (volume s1)) s1)
      | VolumeUp \<Rightarrow>
          (if volume s = 100 then (s, [RemoveReaction], Returned)
           else if \<not> canModify then (s, [RemoveReaction], Returned)
           else let s1 = s\<lparr>volume := min (volume s + 10) 100\<rparr>
                in apply_gain (of_int (volume s1) / 100) (IncreasedVolume (volume s1)) s1)
      | LoopToggle \<Rightarrow> (s, [RemoveReaction, ExecuteCommand ''loop''], Returned)
      | Shuffle \<Rightarrow> (s, [RemoveReaction, ExecuteCommand ''shuffle''], Returned)
      | Stop \<Rightarrow> (s, [RemoveReaction, ExecuteCommand ''stop'', CollectorStop], Returned)
      | Unrecognised \<Rightarrow> (s, [RemoveReaction], Returned))"

section \<open>The session as an event-driven system\<close>

text \<open>
  Everything that can run a segment of this file: an event of an external object, a call
  of a public method, or the settling of a promise a handler awaits. The external player
  and connection assign their state before they emit \<open>stateChange\<close>, so a handler
  started by such an event reads the new status.
\<close>

datatype 'song event =
    ConnectionStateChange connection_state disconnect_answers
  | BackoffElapsed
  | ReadyWaitSettled ready_wait bool
  | PlayerStateChange player_status player_status
  | PlayerError
  | Enqueue "'song list"
  | ProcessQueue
  | MakeResourceSettled "'song attempt"
  | Collect emoji bool

definition step ::
  "bool \<Rightarrow> 'song event \<Rightarrow> 'song session \<Rightarrow> 'song session \<times> 'song effect list \<times> completion" where
  "step pruning ev s =
     (case ev of
        ConnectionStateChange newState ans \<Rightarrow>
          connection_stateChange pruning newState ans
            (s\<lparr>connection_status := status newState\<rparr>)
      | BackoffElapsed \<Rightarrow> backoff_resume s
      | ReadyWaitSettled w destroyRaises \<Rightarrow> ready_resume w destroyRaises s
      | PlayerStateChange oldStatus newStatus \<Rightarrow>
          player_stateChange pruning oldStatus newStatus (s\<lparr>player_status := newStatus\<rparr>)
      | PlayerError \<Rightarrow> player_error pruning s
      | Enqueue new \<Rightarrow> enqueue pruning new s
      | ProcessQueue \<Rightarrow> processQueue pruning s
      | MakeResourceSettled a \<Rightarrow> processQueue_resume pruning a s
      | Collect e canModify \<Rightarrow> collect e canModify s)"

text \<open>A run of events: the final session and all calls made, in order.\<close>

fun run :: "bool \<Rightarrow> 'song event list \<Rightarrow> 'song session \<Rightarrow> 'song session \<times> 'song effect list" where
  "run pruning [] s = (s, [])"
| "run pruning (ev # evs) s =
     (let (s1, es1, c) = step pruning ev s;
          (s2, es2) = run pruning evs s1
      in (s2, es1 @ es2))"

definition is_play :: "'song effect \<Rightarrow> bool" where
  "is_play e = (case e of PlayerPlay _ \<Rightarrow> True | _ \<Rightarrow> False)"

definition is_settle :: "'song event \<Rightarrow> bool" where
  "is_settle ev = (case ev of MakeResourceSettled _ \<Rightarrow> True | _ \<Rightarrow> False)"

definition is_make :: "'song effect \<Rightarrow> bool" where
  "is_make e = (case e of MakeResource _ \<Rightarrow> True | _ \<Rightarrow> False)"

text \<open>A transition of the player from a non-\<open>Idle\<close> state into \<open>Idle\<close>.\<close>

definition is_idle_transition :: "'song event \<Rightarrow> bool" where
  "is_idle_transition ev =
     (case ev of PlayerStateChange oldStatus newStatus \<Rightarrow> oldStatus \<noteq> Idle \<and> newStatus = Idle
      | _ \<Rightarrow> False)"

text \<open>
  The events whose handlers may edit the queue otherwise than by an \<open>Idle\<close> transition:
  \<open>enqueue\<close> appends, a player error advances, and a connection state change clears it
  when it is a terminal disconnect.
\<close>

definition edits_queue :: "'song event \<Rightarrow> bool" where
  "edits_queue ev =
     (case ev of Enqueue _ \<Rightarrow> True | PlayerError \<Rightarrow> True | ConnectionStateChange _ _ \<Rightarrow> True
      | _ \<Rightarrow> False)"

text \<open>
  A run in which the player enters \<open>Idle\<close> only while no \<open>processQueue\<close> invocation
  is suspended: it leaves \<open>Idle\<close> only through \<open>play\<close>, which the suspended
  invocation has yet to call.
\<close>

fun well_timed :: "bool \<Rightarrow> 'song event list \<Rightarrow> 'song session \<Rightarrow> bool" where
  "well_timed pruning [] s = True"
| "well_timed pruning (ev # evs) s =
     ((is_idle_transition ev \<longrightarrow> \<not> queueLock s)
      \<and> well_timed pruning evs (fst (step pruning ev s)))"

definition is_ready_settle :: "'song event \<Rightarrow> bool" where
  "is_ready_settle ev = (case ev of ReadyWaitSettled _ _ \<Rightarrow> True | _ \<Rightarrow> False)"

section \<open>Example sessions\<close>

definition track_resource :: "nat \<Rightarrow> nat audio_resource" where
  "track_resource n = \<lparr>metadata = n, volume_ctl = Some 1\<rparr>"

definition idle_session :: "nat session" where
  "idle_session =
     \<lparr>songs = [1, 2], volume = 100, loop = False, muted = False, resource = None,
      waitTimeout = None, queueLock = False, readyLock = False, player_status = Idle,
      connection_status = Ready, rejoinAttempts = 0\<rparr>"

definition playing_session :: "nat session" where
  "playing_session = idle_session\<lparr>resource := Some (track_resource 1), player_status := Playing\<rparr>"

definition kicked :: connection_state where
  "kicked = \<lparr>status = Disconnected, reason = Some WebSocketClose, closeCode = Some 4014\<rparr>"

definition dropped :: connection_state where
  "dropped = \<lparr>status = Disconnected, reason = Some WebSocketClose, closeCode = Some 1006\<rparr>"

definition calm :: disconnect_answers where
  "calm = \<lparr>first_stop = StopReturns, second_stop = StopReturns, destroy_raises = False\<rparr>"

definition stop_fails_once :: disconnect_answers where
  "stop_fails_once =
     \<lparr>first_stop = PlayerStopRaises, second_stop = StopReturns, destroy_raises = False\<rparr>"

definition connecting :: connection_state where
  "connecting = \<lparr>status = Connecting, reason = None, closeCode = None\<rparr>"

definition half_volume_session :: "nat session" where
  "half_volume_session =
     playing_session\<lparr>volume := 50, resource := Some \<lparr>metadata = 1, volume_ctl = Some (1 / 2)\<rparr>\<rparr>"

definition stale_gain_session :: "nat session" where
  "stale_gain_session =
     half_volume_session\<lparr>songs := [2], resource := Some (track_resource 2),
       player_status := Idle\<rparr>"

definition quiet_session :: "nat session" where
  "quiet_session =
     playing_session\<lparr>volume := 10, muted := True,
       resource := Some \<lparr>metadata = 1, volume_ctl = Some 0\<rparr>\<rparr>"

section \<open>Gain and volume\<close>

text \<open>
  The gain of the stored resource agrees with the stored volume: unless \<open>muted\<close> is set,
  a resource with a volume control has gain \<open>volume / 100\<close>.
\<close>

definition gain_in_sync :: "'song session \<Rightarrow> bool" where
  "gain_in_sync s =
     (case resource s of
        None \<Rightarrow> True
      | Some r \<Rightarrow>
          (case volume_ctl r of None \<Rightarrow> True
           | Some g \<Rightarrow> muted s \<or> g = of_int (volume s) / 100))"

definition is_play_raises :: "'song event \<Rightarrow> bool" where
  "is_play_raises ev = (case ev of MakeResourceSettled (PlayRaises _) \<Rightarrow> True | _ \<Rightarrow> False)"

section \<open>Facts about the queue processor\<close>

lemma processQueue_locked: "queueLock s \<Longrightarrow> processQueue p s = (s, [], Returned)"
  by (simp add: processQueue_def)

lemma processQueue_not_idle: "player_status s \<noteq> Idle \<Longrightarrow> processQueue p s = (s, [], Returned)"
  by (simp add: processQueue_def)

lemma processQueue_no_play: "processQueue p s = (s', es, c) \<Longrightarrow> filter is_play es = []"
  by (auto simp: processQueue_def stop_def is_play_def split: if_splits list.splits)

lemma processQueue_awaiting_locks: "processQueue p s = (s', es, Awaiting) \<Longrightarrow> queueLock s'"
  by (auto simp: processQueue_def stop_def split: if_splits list.splits)

lemma queueLock_advance [simp]: "queueLock (advance s) = queueLock s"
  by (simp add: advance_def)

lemma step_while_locked:
  assumes "queueLock s" "\<not> is_settle ev" "step p ev s = (s', es, c)"
  shows "queueLock s' \<and> filter is_play es = []"
  using assms
  by (cases ev)
     (auto simp: step_def is_settle_def processQueue_locked connection_stateChange_def stop_def
        stop_attempt_def
        backoff_resume_def ready_resume_def connection_destroy_def swallow_def player_stateChange_def
        player_error_def enqueue_def collect_def apply_gain_def is_play_def Let_def
        split: if_splits option.splits emoji.splits ready_wait.splits prod.splits
          stop_outcome.splits)

lemma run_while_locked:
  "queueLock s \<Longrightarrow> \<forall>ev\<in>set evs. \<not> is_settle ev \<Longrightarrow> run p evs s = (s', es)
     \<Longrightarrow> queueLock s' \<and> filter is_play es = []"
proof (induction evs arbitrary: s s' es)
  case Nil
  then show ?case by simp
next
  case (Cons ev evs)
  obtain s1 es1 c where st: "step p ev s = (s1, es1, c)" by (cases "step p ev s") auto
  obtain s2 es2 where rn: "run p evs s1 = (s2, es2)" by (cases "run p evs s1") auto
  from Cons.prems st rn have eq: "s' = s2" "es = es1 @ es2" by auto
  from step_while_locked[OF Cons.prems(1) _ st] Cons.prems(2)
  have l1: "queueLock s1" "filter is_play es1 = []" by auto
  from Cons.IH[OF l1(1) _ rn] Cons.prems(2) have "queueLock s2 \<and> filter is_play es2 = []" by auto
  with l1 eq show ?case by simp
qed

lemma resume_plays_once:
  "processQueue_resume p a s = (s', es, c) \<Longrightarrow> length (filter is_play es) \<le> 1"
  by (cases a)
     (auto simp: processQueue_resume_def processQueue_catch_def is_play_def Let_def
        split: prod.splits dest: processQueue_no_play)

section \<open>Facts about the queue across events\<close>

lemma processQueue_songs:
  "processQueue p s = (s', es, c) \<Longrightarrow> songs s' = songs s"
  by (auto simp: processQueue_def stop_def split: if_splits list.splits)

lemma processQueue_loop:
  "processQueue p s = (s', es, c) \<Longrightarrow> songs s \<noteq> [] \<Longrightarrow> loop s' = loop s"
  by (auto simp: processQueue_def stop_def split: if_splits list.splits)

lemma processQueue_loop_off:
  "processQueue p s = (s', es, c) \<Longrightarrow> \<not> loop s \<Longrightarrow> \<not> loop s'"
  by (auto simp: processQueue_def stop_def split: if_splits list.splits)

lemma resume_songs:
  "processQueue_resume p a s = (s', es, c) \<Longrightarrow> songs s' = songs s"
  by (cases a)
     (auto simp: processQueue_resume_def processQueue_catch_def Let_def
        split: prod.splits dest: processQueue_songs)

lemma resume_loop:
  "processQueue_resume p a s = (s', es, c) \<Longrightarrow> songs s \<noteq> [] \<Longrightarrow> loop s' = loop s"
  by (cases a)
     (auto simp: processQueue_resume_def processQueue_catch_def Let_def
        split: prod.splits dest: processQueue_loop)

lemma resume_loop_off:
  "processQueue_resume p a s = (s', es, c) \<Longrightarrow> \<not> loop s \<Longrightarrow> \<not> loop s'"
  by (cases a)
     (auto simp: processQueue_resume_def processQueue_catch_def Let_def
        split: prod.splits dest: processQueue_loop_off)

lemma collect_songs_loop:
  "collect e b s = (s', es, c) \<Longrightarrow> songs s' = songs s \<and> loop s' = loop s"
  by (cases e) (auto simp: collect_def apply_gain_def Let_def split: if_splits option.splits)

lemma advance_looping:
  "loop s \<Longrightarrow> songs s \<noteq> [] \<Longrightarrow> songs (advance s) = rotate1 (songs s) \<and> loop (advance s)"
  by (cases "songs s") (auto simp: advance_def)

lemma advance_not_looping:
  "\<not> loop s \<Longrightarrow> songs (advance s) = drop 1 (songs s) \<and> \<not> loop (advance s)"
  by (cases "songs s") (auto simp: advance_def)

lemma step_looping:
  assumes "loop s" "songs s \<noteq> []" "\<not> edits_queue ev" "step p ev s = (s', es, c)"
  shows "loop s' \<and> songs s' = (if is_idle_transition ev then rotate1 (songs s) else songs s)"
proof (cases ev)
  case (PlayerStateChange old new)
  let ?s0 = "s\<lparr>player_status := new\<rparr>"
  have a: "loop ?s0" "songs ?s0 \<noteq> []" using assms by auto
  show ?thesis
  proof (cases "old \<noteq> Idle \<and> new = Idle")
    case True
    from advance_looping[OF a] have adv: "songs (advance ?s0) = rotate1 (songs s)" "loop (advance ?s0)"
      by auto
    with assms(2) have ne: "songs (advance ?s0) \<noteq> []" by simp
    from assms(4) PlayerStateChange True ne
    have "processQueue p (advance ?s0) = (s', es, c)"
      by (simp add: step_def player_stateChange_def Let_def)
    from processQueue_songs[OF this] processQueue_loop[OF this ne] adv True PlayerStateChange
    show ?thesis by (simp add: is_idle_transition_def)
  next
    case False
    with assms PlayerStateChange show ?thesis
      by (auto simp: step_def player_stateChange_def is_idle_transition_def split: if_splits)
  qed
next
  case (MakeResourceSettled a)
  with assms resume_songs[of p a s s' es c] resume_loop[of p a s s' es c] show ?thesis
    by (simp add: step_def is_idle_transition_def)
next
  case (Collect e b)
  with assms collect_songs_loop[of e b s s' es c] show ?thesis
    by (simp add: step_def is_idle_transition_def)
next
  case ProcessQueue
  with assms processQueue_songs[of p s s' es c] processQueue_loop[of p s s' es c] show ?thesis
    by (simp add: step_def is_idle_transition_def)
qed (use assms in \<open>auto simp: step_def edits_queue_def is_idle_transition_def backoff_resume_def
      ready_resume_def Let_def split: prod.splits\<close>)

lemma run_looping:
  "loop s \<Longrightarrow> songs s \<noteq> [] \<Longrightarrow> \<forall>ev\<in>set evs. \<not> edits_queue ev \<Longrightarrow> run p evs s = (s', es)
     \<Longrightarrow> loop s' \<and> songs s' = rotate (length (filter is_idle_transition evs)) (songs s)"
proof (induction evs arbitrary: s s' es)
  case Nil
  then show ?case by simp
next
  case (Cons ev evs)
  obtain s1 es1 c where st: "step p ev s = (s1, es1, c)" by (cases "step p ev s") auto
  obtain s2 es2 where rn: "run p evs s1 = (s2, es2)" by (cases "run p evs s1") auto
  from Cons.prems st rn have eq: "s' = s2" by auto
  from Cons.prems have ne: "\<not> edits_queue ev" by simp
  from step_looping[OF Cons.prems(1,2) ne st]
  have l1: "loop s1" "songs s1 = (if is_idle_transition ev then rotate1 (songs s) else songs s)"
    by auto
  with Cons.prems(2) have ne1: "songs s1 \<noteq> []" by auto
  from Cons.IH[OF l1(1) ne1 _ rn] Cons.prems(3)
  have "loop s2 \<and> songs s2 = rotate (length (filter is_idle_transition evs)) (songs s1)" by auto
  with l1 eq show ?case by (simp add: rotate1_rotate_swap)
qed

lemma step_not_looping:
  assumes "\<not> loop s" "\<not> edits_queue ev" "step p ev s = (s', es, c)"
  shows "\<not> loop s' \<and> songs s' = (if is_idle_transition ev then drop 1 (songs s) else songs s)"
proof (cases ev)
  case (PlayerStateChange old new)
  let ?s0 = "s\<lparr>player_status := new\<rparr>"
  have a: "\<not> loop ?s0" using assms by auto
  show ?thesis
  proof (cases "old \<noteq> Idle \<and> new = Idle")
    case True
    from advance_not_looping[OF a]
    have adv: "songs (advance ?s0) = drop 1 (songs s)" "\<not> loop (advance ?s0)" by auto
    show ?thesis
    proof (cases "songs (advance ?s0) \<noteq> [] \<or> resource (advance ?s0) \<noteq> None")
      case call: True
      from assms(3) PlayerStateChange True call
      have "processQueue p (advance ?s0) = (s', es, c)"
        by (simp add: step_def player_stateChange_def Let_def)
      from processQueue_songs[OF this] processQueue_loop_off[OF this adv(2)] adv True
        PlayerStateChange
      show ?thesis by (simp add: is_idle_transition_def)
    next
      case False
      with assms(3) PlayerStateChange True have "s' = advance ?s0"
        by (simp add: step_def player_stateChange_def Let_def)
      with adv True PlayerStateChange show ?thesis by (simp add: is_idle_transition_def)
    qed
  next
    case False
    with assms PlayerStateChange show ?thesis
      by (auto simp: step_def player_stateChange_def is_idle_transition_def split: if_splits)
  qed
next
  case (MakeResourceSettled a)
  with assms resume_songs[of p a s s' es c] resume_loop_off[of p a s s' es c] show ?thesis
    by (simp add: step_def is_idle_transition_def)
next
  case (Collect e b)
  with assms collect_songs_loop[of e b s s' es c] show ?thesis
    by (simp add: step_def is_idle_transition_def)
next
  case ProcessQueue
  with assms processQueue_songs[of p s s' es c] processQueue_loop_off[of p s s' es c] show ?thesis
    by (simp add: step_def is_idle_transition_def)
qed (use assms in \<open>auto simp: step_def edits_queue_def is_idle_transition_def backoff_resume_def
      ready_resume_def Let_def split: prod.splits\<close>)

lemma run_not_looping:
  "\<not> loop s \<Longrightarrow> \<forall>ev\<in>set evs. \<not> edits_queue ev \<Longrightarrow> run p evs s = (s', es)
     \<Longrightarrow> \<not> loop s' \<and> songs s' = drop (length (filter is_idle_transition evs)) (songs s)"
proof (induction evs arbitrary: s s' es)
  case Nil
  then show ?case by simp
next
  case (Cons ev evs)
  obtain s1 es1 c where st: "step p ev s = (s1, es1, c)" by (cases "step p ev s") auto
  obtain s2 es2 where rn: "run p evs s1 = (s2, es2)" by (cases "run p evs s1") auto
  from Cons.prems st rn have eq: "s' = s2" by auto
  from Cons.prems have ne: "\<not> edits_queue ev" by simp
  from step_not_looping[OF Cons.prems(1) ne st]
  have l1: "\<not> loop s1" "songs s1 = (if is_idle_transition ev then drop 1 (songs s) else songs s)"
    by auto
  from Cons.IH[OF l1(1) _ rn] Cons.prems(2)
  have "\<not> loop s2 \<and> songs s2 = drop (length (filter is_idle_transition evs)) (songs s1)" by auto
  with l1 eq show ?case by simp
qed

lemma resume_while_locked:
  assumes "queueLock s" "processQueue_resume p a s = (s', es, c)"
  shows "\<not> queueLock s' \<and> c = Returned \<and> filter is_make es = [] \<and> PlayerStop \<notin> set es
         \<and> (a \<noteq> MakeVoid \<and> resource s \<noteq> None \<longrightarrow> resource s' \<noteq> None)"
  using assms
  by (cases a)
     (auto simp: processQueue_resume_def processQueue_catch_def processQueue_locked is_make_def)

lemma final_completion:
  assumes "\<not> loop s" "\<not> queueLock s" "resource s \<noteq> None" "length (songs s) = 1" "old \<noteq> Idle"
  shows "step p (PlayerStateChange old Idle) s =
           (s\<lparr>player_status := Idle, songs := [], loop := False\<rparr>,
            PlayerStop # (if \<not> p then [Send QueueEnded] else []), Returned)"
proof -
  from assms(4) obtain x where sg: "songs s = [x]" by (cases "songs s") auto
  show ?thesis using assms(1,2,3,5) sg
    by (simp add: step_def player_stateChange_def advance_def processQueue_def stop_def Let_def)
qed

lemma player_idle_looping:
  assumes "loop s" "songs s \<noteq> []" "old \<noteq> Idle" "player_stateChange p old Idle s = (s', es, c)"
  shows "songs s' = tl (songs s) @ [hd (songs s)] \<and> loop s'"
proof -
  from advance_looping[OF assms(1,2)] assms(2)
  have adv: "songs (advance s) = tl (songs s) @ [hd (songs s)]" "loop (advance s)"
    by (cases "songs s"; simp)+
  then have ne: "songs (advance s) \<noteq> []" by simp
  from assms(3,4) ne have "processQueue p (advance s) = (s', es, c)"
    by (simp add: player_stateChange_def Let_def)
  from processQueue_songs[OF this] processQueue_loop[OF this ne] adv show ?thesis by simp
qed

section \<open>Facts about the connection machine\<close>

lemma stop_attempt_shape:
  "stop_attempt p out s = (s', es, c) \<Longrightarrow>
     s' = s\<lparr>loop := False, songs := []\<rparr> \<and> c \<noteq> Awaiting
     \<and> length (filter (\<lambda>e. e = PlayerStop) es) = 1
     \<and> ConnectionRejoin \<notin> set es \<and> (\<forall>t. Wait t \<notin> set es)
     \<and> (c \<noteq> Raised \<longrightarrow> es = PlayerStop # (if \<not> p then [Send QueueEnded] else []) \<and> c = Returned)"
  by (cases out) (auto simp: stop_attempt_def stop_def split: if_splits)

lemma terminal_disconnect:
  assumes "status n = Disconnected" "reason n = Some WebSocketClose \<and> closeCode n = Some 4014"
    "connection_stateChange p n ans s = (s', es, c)"
  shows "s' = s\<lparr>loop := False, songs := []\<rparr>
         \<and> PlayerStop \<in> set es \<and> ConnectionRejoin \<notin> set es \<and> (\<forall>t. Wait t \<notin> set es)
         \<and> c \<noteq> Awaiting
         \<and> (snd (snd (stop_attempt p (first_stop ans) s)) \<noteq> Raised \<longrightarrow>
               es = PlayerStop # (if \<not> p then [Send QueueEnded] else []) \<and> c = Returned)
         \<and> (snd (snd (stop_attempt p (first_stop ans) s)) = Raised \<longrightarrow>
               es = fst (snd (stop_attempt p (first_stop ans) s)) @ ConsoleLog
                      # fst (snd (stop_attempt p (second_stop ans) s'))
               \<and> c = snd (snd (stop_attempt p (second_stop ans) s'))
               \<and> length (filter (\<lambda>e. e = PlayerStop) es) = 2)"
proof -
  obtain s1 es1 c1 where a1: "stop_attempt p (first_stop ans) s = (s1, es1, c1)"
    by (cases "stop_attempt p (first_stop ans) s") auto
  obtain s2 es2 c2 where a2: "stop_attempt p (second_stop ans) s1 = (s2, es2, c2)"
    by (cases "stop_attempt p (second_stop ans) s1") auto
  note sh1 = stop_attempt_shape[OF a1]
  note sh2 = stop_attempt_shape[OF a2]
  have stopped_twice: "s2 = s1" using sh1 sh2 by simp
  have ps1: "PlayerStop \<in> set es1"
  proof (rule ccontr)
    assume "PlayerStop \<notin> set es1"
    then have "filter (\<lambda>e. e = PlayerStop) es1 = []" by (auto simp: filter_empty_conv)
    with sh1 show False by simp
  qed
  show ?thesis
  proof (cases "c1 = Raised")
    case True
    with assms a1 a2 have r: "s' = s2" "es = es1 @ ConsoleLog # es2" "c = c2"
      by (simp_all add: connection_stateChange_def)
    with True a1 a2 sh1 sh2 stopped_twice ps1 show ?thesis by simp
  next
    case False
    with assms a1 have r: "s' = s1" "es = es1" "c = c1"
      by (simp_all add: connection_stateChange_def)
    with False a1 sh1 ps1 show ?thesis by simp
  qed
qed

lemma step_while_ready_locked:
  assumes "readyLock s" "\<not> is_ready_settle ev" "step p ev s = (s', es, c)"
  shows "readyLock s' \<and> (\<forall>t. EntersStateReady t \<notin> set es)"
proof (cases ev)
  case (PlayerStateChange old new)
  show ?thesis
    using assms PlayerStateChange
    by (auto simp: step_def player_stateChange_def processQueue_def stop_def advance_def Let_def
        split: if_splits list.splits)
next
  case (MakeResourceSettled a)
  with assms show ?thesis
    by (cases a)
       (auto simp: step_def processQueue_resume_def processQueue_catch_def processQueue_def
          stop_def Let_def split: if_splits list.splits)
next
  case (Collect e b)
  with assms show ?thesis
    by (cases e) (auto simp: step_def collect_def apply_gain_def Let_def split: if_splits option.splits)
next
  case (Enqueue new)
  with assms show ?thesis
    by (auto simp: step_def enqueue_def processQueue_def stop_def Let_def
        split: if_splits list.splits option.splits)
next
  case PlayerError
  with assms show ?thesis
    by (auto simp: step_def player_error_def processQueue_def stop_def advance_def Let_def
        split: if_splits list.splits)
next
  case ProcessQueue
  with assms show ?thesis
    by (auto simp: step_def processQueue_def stop_def Let_def split: if_splits list.splits)
next
  case (ConnectionStateChange n ans)
  with assms show ?thesis
    by (auto simp: step_def connection_stateChange_def stop_attempt_def stop_def
        connection_destroy_def Let_def split: if_splits stop_outcome.splits)
next
  case BackoffElapsed
  with assms show ?thesis by (auto simp: step_def backoff_resume_def)
next
  case (ReadyWaitSettled w d)
  with assms show ?thesis by (simp add: is_ready_settle_def)
qed

lemma run_while_ready_locked:
  "readyLock s \<Longrightarrow> \<forall>ev\<in>set evs. \<not> is_ready_settle ev \<Longrightarrow> run p evs s = (s', es)
     \<Longrightarrow> readyLock s' \<and> (\<forall>t. EntersStateReady t \<notin> set es)"
proof (induction evs arbitrary: s s' es)
  case Nil
  then show ?case by simp
next
  case (Cons ev evs)
  obtain s1 es1 c where st: "step p ev s = (s1, es1, c)" by (cases "step p ev s") auto
  obtain s2 es2 where rn: "run p evs s1 = (s2, es2)" by (cases "run p evs s1") auto
  from Cons.prems st rn have eq: "s' = s2" "es = es1 @ es2" by auto
  from Cons.prems(2) have ne: "\<not> is_ready_settle ev" by simp
  from step_while_ready_locked[OF Cons.prems(1) ne st]
  have l1: "readyLock s1" "\<forall>t. EntersStateReady t \<notin> set es1" by auto
  from Cons.IH[OF l1(1) _ rn] Cons.prems(2)
  have "readyLock s2 \<and> (\<forall>t. EntersStateReady t \<notin> set es2)" by auto
  with l1 eq show ?case by simp
qed

lemma ready_resume_eq:
  "ready_resume w d s =
     (s\<lparr>readyLock := False\<rparr>,
      (if w \<noteq> ReadyReached \<and> connection_status s \<noteq> Destroyed then [ConnectionDestroy] else []),
      Returned)"
  by (cases w; cases d) (simp_all add: ready_resume_def connection_destroy_def swallow_def)

section \<open>Facts about a failed resource creation\<close>

lemma processQueue_awaiting_makes:
  "processQueue p s = (s', es, Awaiting) \<Longrightarrow> length (filter is_make es) = 1"
  by (auto simp: processQueue_def stop_def is_make_def split: if_splits list.splits)

lemma processQueue_frame:
  "processQueue p s = (s', es, c) \<Longrightarrow> volume s' = volume s \<and> muted s' = muted s \<and> resource s' = resource s"
  by (auto simp: processQueue_def stop_def split: if_splits list.splits)

lemma step_locked_no_make:
  assumes "queueLock s" "\<not> is_settle ev" "step p ev s = (s', es, c)"
  shows "filter is_make es = []"
  using assms
  by (cases ev)
     (auto simp: step_def is_settle_def processQueue_locked connection_stateChange_def stop_def
        stop_attempt_def
        backoff_resume_def ready_resume_def connection_destroy_def swallow_def player_stateChange_def
        player_error_def enqueue_def collect_def apply_gain_def is_make_def Let_def
        split: if_splits option.splits emoji.splits ready_wait.splits prod.splits
          stop_outcome.splits)

lemma run_locked_no_make:
  "queueLock s \<Longrightarrow> \<forall>ev\<in>set evs. \<not> is_settle ev \<Longrightarrow> run p evs s = (s', es)
     \<Longrightarrow> filter is_make es = []"
proof (induction evs arbitrary: s s' es)
  case Nil
  then show ?case by simp
next
  case (Cons ev evs)
  obtain s1 es1 c where st: "step p ev s = (s1, es1, c)" by (cases "step p ev s") auto
  obtain s2 es2 where rn: "run p evs s1 = (s2, es2)" by (cases "run p evs s1") auto
  from Cons.prems st rn have eq: "es = es1 @ es2" by auto
  from Cons.prems(2) have ne: "\<not> is_settle ev" by simp
  from step_while_locked[OF Cons.prems(1) ne st] have l1: "queueLock s1" by simp
  from step_locked_no_make[OF Cons.prems(1) ne st] have m1: "filter is_make es1 = []" .
  from Cons.IH[OF l1 _ rn] Cons.prems(2) have "filter is_make es2 = []" by auto
  with m1 eq show ?case by simp
qed

text \<open>The session at the \<open>catch\<close> block, after the statements of the \<open>try\<close> block that ran.\<close>

lemma resume_failure_shape:
  assumes "\<forall>r. a \<noteq> Plays r" "processQueue_resume p a s = (s', es, c)"
  shows "\<exists>s0 pre sr esr.
           songs s0 = songs s \<and> queueLock s0 = queueLock s \<and> player_status s0 = player_status s
           \<and> processQueue p s0 = (sr, esr, c)
           \<and> s' = sr\<lparr>queueLock := False\<rparr> \<and> es = pre @ ConsoleError # esr
           \<and> filter is_make pre = []"
proof (cases a)
  case MakeRejected
  obtain sr esr cr where pq: "processQueue p s = (sr, esr, cr)" by (cases "processQueue p s") auto
  with assms(2) MakeRejected have "s' = sr\<lparr>queueLock := False\<rparr>" "es = [] @ ConsoleError # esr" "c = cr"
    by (simp_all add: processQueue_resume_def processQueue_catch_def)
  with pq show ?thesis by (intro exI[of _ s] exI[of _ "[]"] exI[of _ sr] exI[of _ esr]) simp
next
  case MakeVoid
  let ?s0 = "s\<lparr>resource := None\<rparr>"
  obtain sr esr cr where pq: "processQueue p ?s0 = (sr, esr, cr)"
    by (cases "processQueue p ?s0") auto
  with assms(2) MakeVoid
  have "s' = sr\<lparr>queueLock := False\<rparr>" "es = [PlayerPlay None] @ ConsoleError # esr" "c = cr"
    by (simp_all add: processQueue_resume_def processQueue_catch_def)
  with pq show ?thesis
    by (intro exI[of _ ?s0] exI[of _ "[PlayerPlay None]"] exI[of _ sr] exI[of _ esr])
       (simp add: is_make_def)
next
  case (PlayRaises r)
  let ?s0 = "s\<lparr>resource := Some r\<rparr>"
  obtain sr esr cr where pq: "processQueue p ?s0 = (sr, esr, cr)"
    by (cases "processQueue p ?s0") auto
  with assms(2) PlayRaises
  have "s' = sr\<lparr>queueLock := False\<rparr>" "es = [PlayerPlay (Some r)] @ ConsoleError # esr" "c = cr"
    by (simp_all add: processQueue_resume_def processQueue_catch_def)
  with pq show ?thesis
    by (intro exI[of _ ?s0] exI[of _ "[PlayerPlay (Some r)]"] exI[of _ sr] exI[of _ esr])
       (simp add: is_make_def)
next
  case (Plays r)
  with assms(1) show ?thesis by simp
qed

lemma resume_unlocks:
  "processQueue_resume p a s = (s', es, c) \<Longrightarrow> \<not> queueLock s'"
  by (cases a)
     (auto simp: processQueue_resume_def processQueue_catch_def Let_def split: prod.splits)

section \<open>Facts about the volume controls\<close>

lemma apply_gain_volume:
  "apply_gain g m s = (s', es, c) \<Longrightarrow> volume s' = volume s \<and> muted s' = muted s"
  by (auto simp: apply_gain_def split: option.splits)

lemma collect_volume_range:
  assumes "collect e b s = (s', es, c)" "0 \<le> volume s" "volume s \<le> 100"
  shows "0 \<le> volume s' \<and> volume s' \<le> 100"
  using assms
  by (cases e)
     (auto simp: collect_def Let_def split: if_splits dest!: apply_gain_volume)

lemma resume_frame:
  "processQueue_resume p a s = (s', es, c) \<Longrightarrow> volume s' = volume s \<and> muted s' = muted s"
  by (cases a)
     (auto simp: processQueue_resume_def processQueue_catch_def Let_def
        split: prod.splits dest!: processQueue_frame)

lemma volume_advance [simp]: "volume (advance s) = volume s"
  by (simp add: advance_def)

lemma step_volume_range:
  assumes "step p ev s = (s', es, c)" "0 \<le> volume s" "volume s \<le> 100"
  shows "0 \<le> volume s' \<and> volume s' \<le> 100"
proof (cases ev)
  case (Collect e b)
  with assms collect_volume_range[of e b s s' es c] show ?thesis by (simp add: step_def)
next
  case (MakeResourceSettled a)
  with assms resume_frame[of p a s s' es c] show ?thesis by (simp add: step_def)
next
  case (PlayerStateChange old new)
  with assms show ?thesis
    by (auto simp: step_def player_stateChange_def Let_def split: if_splits dest!: processQueue_frame)
next
  case PlayerError
  with assms show ?thesis
    by (auto simp: step_def player_error_def Let_def split: prod.splits dest!: processQueue_frame)
next
  case (Enqueue new)
  with assms show ?thesis
    by (auto simp: step_def enqueue_def Let_def split: prod.splits dest!: processQueue_frame)
next
  case ProcessQueue
  with assms show ?thesis by (auto simp: step_def dest!: processQueue_frame)
next
  case (ConnectionStateChange n ans)
  with assms show ?thesis
    by (auto simp: step_def connection_stateChange_def stop_attempt_def stop_def
        connection_destroy_def split: if_splits stop_outcome.splits)
next
  case BackoffElapsed
  with assms show ?thesis by (auto simp: step_def backoff_resume_def)
next
  case (ReadyWaitSettled w d)
  with assms show ?thesis by (auto simp: step_def ready_resume_eq)
qed

lemma run_volume_range:
  "run p evs s = (s', es) \<Longrightarrow> 0 \<le> volume s \<Longrightarrow> volume s \<le> 100
     \<Longrightarrow> 0 \<le> volume s' \<and> volume s' \<le> 100"
proof (induction evs arbitrary: s s' es)
  case Nil
  then show ?case by simp
next
  case (Cons ev evs)
  obtain s1 es1 c where st: "step p ev s = (s1, es1, c)" by (cases "step p ev s") auto
  obtain s2 es2 where rn: "run p evs s1 = (s2, es2)" by (cases "run p evs s1") auto
  from Cons.prems st rn have eq: "s' = s2" by auto
  from step_volume_range[OF st Cons.prems(2,3)] have "0 \<le> volume s1" "volume s1 \<le> 100" by simp_all
  from Cons.IH[OF rn this] eq show ?case by simp
qed

lemma volume_down_cases:
  "collect VolumeDown b s = (s', es, c) \<Longrightarrow>
     (volume s = 0 \<or> \<not> b \<longrightarrow> s' = s \<and> es = [RemoveReaction] \<and> c = Returned)
     \<and> (volume s \<noteq> 0 \<and> b \<longrightarrow> volume s' = max (volume s - 10) 0)"
  by (auto simp: collect_def Let_def split: if_splits dest!: apply_gain_volume)

lemma volume_up_cases:
  "collect VolumeUp b s = (s', es, c) \<Longrightarrow>
     (volume s = 100 \<or> \<not> b \<longrightarrow> s' = s \<and> es = [RemoveReaction] \<and> c = Returned)
     \<and> (volume s \<noteq> 100 \<and> b \<longrightarrow> volume s' = min (volume s + 10) 100)"
  by (auto simp: collect_def Let_def split: if_splits dest!: apply_gain_volume)

lemma run_volume_ups:
  "run p (replicate k (Collect VolumeUp True)) s = (s', es) \<Longrightarrow> volume s \<le> 100
     \<Longrightarrow> volume s' = min (volume s + 10 * int k) 100"
proof (induction k arbitrary: s s' es)
  case 0
  then show ?case by simp
next
  case (Suc k)
  obtain s1 es1 c where st: "collect VolumeUp True s = (s1, es1, c)"
    by (cases "collect VolumeUp True s") auto
  obtain s2 es2 where rn: "run p (replicate k (Collect VolumeUp True)) s1 = (s2, es2)"
    by (cases "run p (replicate k (Collect VolumeUp True)) s1") auto
  from Suc.prems(1) st rn have eq: "s' = s2" by (simp add: step_def)
  from volume_up_cases[OF st] Suc.prems(2)
  have v1: "volume s1 = min (volume s + 10) 100" by (cases "volume s = 100") auto
  then have "volume s1 \<le> 100" by simp
  from Suc.IH[OF rn this] v1 eq show ?case by auto
qed

lemma run_volume_downs:
  "run p (replicate k (Collect VolumeDown True)) s = (s', es) \<Longrightarrow> 0 \<le> volume s
     \<Longrightarrow> volume s' = max (volume s - 10 * int k) 0"
proof (induction k arbitrary: s s' es)
  case 0
  then show ?case by simp
next
  case (Suc k)
  obtain s1 es1 c where st: "collect VolumeDown True s = (s1, es1, c)"
    by (cases "collect VolumeDown True s") auto
  obtain s2 es2 where rn: "run p (replicate k (Collect VolumeDown True)) s1 = (s2, es2)"
    by (cases "run p (replicate k (Collect VolumeDown True)) s1") auto
  from Suc.prems(1) st rn have eq: "s' = s2" by (simp add: step_def)
  from volume_down_cases[OF st] Suc.prems(2)
  have v1: "volume s1 = max (volume s - 10) 0" by (cases "volume s = 0") auto
  then have "0 \<le> volume s1" by simp
  from Suc.IH[OF rn this] v1 eq show ?case by auto
qed

lemma replicate_five: "replicate 5 x = [x, x, x, x, x]"
  by (simp add: numeral_eq_Suc)

section \<open>Facts about gain and mute\<close>

lemma gain_in_sync_iff:
  "gain_in_sync s \<longleftrightarrow>
     (\<forall>r g. resource s = Some r \<longrightarrow> volume_ctl r = Some g \<longrightarrow>
        muted s \<or> g = of_int (volume s) / 100)"
  by (auto simp: gain_in_sync_def split: option.splits)

lemma gain_in_sync_frame:
  "resource s' = resource s \<Longrightarrow> volume s' = volume s \<Longrightarrow> muted s' = muted s
     \<Longrightarrow> gain_in_sync s' = gain_in_sync s"
  by (simp add: gain_in_sync_iff)

lemma processQueue_in_sync:
  "processQueue p s = (s', es, c) \<Longrightarrow> gain_in_sync s' = gain_in_sync s"
  by (drule processQueue_frame) (rule gain_in_sync_frame, simp_all)

lemma catch_in_sync:
  assumes "processQueue_catch p s = (s', es, c)"
  shows "gain_in_sync s' = gain_in_sync s"
proof -
  obtain sr esr cr where pq: "processQueue p s = (sr, esr, cr)" by (cases "processQueue p s") auto
  with assms have "s' = sr\<lparr>queueLock := False\<rparr>" by (simp add: processQueue_catch_def)
  then have "gain_in_sync s' = gain_in_sync sr" by (simp add: gain_in_sync_iff)
  with processQueue_in_sync[OF pq] show ?thesis by simp
qed

lemma resume_in_sync:
  assumes "gain_in_sync s" "\<forall>r. a \<noteq> PlayRaises r" "processQueue_resume p a s = (s', es, c)"
  shows "gain_in_sync s'"
proof (cases a)
  case MakeRejected
  with assms catch_in_sync[of p s s' es c] show ?thesis by (simp add: processQueue_resume_def)
next
  case MakeVoid
  obtain sr esr cr where pc: "processQueue_catch p (s\<lparr>resource := None\<rparr>) = (sr, esr, cr)"
    by (cases "processQueue_catch p (s\<lparr>resource := None\<rparr>)") auto
  with assms(3) MakeVoid have "s' = sr" by (simp add: processQueue_resume_def)
  with catch_in_sync[OF pc] show ?thesis by (simp add: gain_in_sync_iff)
next
  case (PlayRaises r)
  with assms(2) show ?thesis by simp
next
  case (Plays r)
  with assms(3)
  have "s' = s\<lparr>resource := Some (setVolumeLogarithmic (of_int (volume s) / 100) r),
             queueLock := False\<rparr>"
    by (simp add: processQueue_resume_def)
  then show ?thesis
    by (cases "volume_ctl r") (simp_all add: gain_in_sync_iff setVolumeLogarithmic_def)
qed

lemma apply_gain_in_sync:
  assumes "apply_gain g m s = (s', es, c)" "muted s \<or> g = of_int (volume s) / 100"
  shows "gain_in_sync s'"
proof (cases "resource s")
  case None
  with assms(1) have "s' = s" by (simp add: apply_gain_def)
  with None show ?thesis by (simp add: gain_in_sync_iff)
next
  case (Some r)
  with assms(1) have "s' = s\<lparr>resource := Some (setVolumeLogarithmic g r)\<rparr>"
    by (simp add: apply_gain_def)
  with assms(2) show ?thesis
    by (cases "volume_ctl r") (auto simp: gain_in_sync_iff setVolumeLogarithmic_def)
qed

lemma collect_in_sync:
  assumes "gain_in_sync s" "collect e b s = (s', es, c)"
  shows "gain_in_sync s'"
proof (cases e)
  case Mute
  show ?thesis
  proof (cases b)
    case True
    let ?s1 = "s\<lparr>muted := \<not> muted s\<rparr>"
    from assms(2) Mute True
    have "apply_gain (if muted ?s1 then 0 else of_int (volume ?s1) / 100)
            (if muted ?s1 then MutedSong else UnmutedSong) ?s1 = (s', es, c)"
      by (simp add: collect_def Let_def split: if_splits)
    then show ?thesis by (rule apply_gain_in_sync) simp
  next
    case False
    with assms Mute show ?thesis by (simp add: collect_def)
  qed
next
  case VolumeDown
  show ?thesis
  proof (cases "volume s = 0 \<or> \<not> b")
    case True
    with assms VolumeDown show ?thesis by (auto simp: collect_def split: if_splits)
  next
    case False
    let ?s1 = "s\<lparr>volume := max (volume s - 10) 0\<rparr>"
    from assms(2) VolumeDown False
    have "apply_gain (of_int (volume ?s1) / 100) (DecreasedVolume (volume ?s1)) ?s1 = (s', es, c)"
      by (simp add: collect_def Let_def)
    then show ?thesis by (rule apply_gain_in_sync) simp
  qed
next
  case VolumeUp
  show ?thesis
  proof (cases "volume s = 100 \<or> \<not> b")
    case True
    with assms VolumeUp show ?thesis by (auto simp: collect_def split: if_splits)
  next
    case False
    let ?s1 = "s\<lparr>volume := min (volume s + 10) 100\<rparr>"
    from assms(2) VolumeUp False
    have "apply_gain (of_int (volume ?s1) / 100) (IncreasedVolume (volume ?s1)) ?s1 = (s', es, c)"
      by (simp add: collect_def Let_def)
    then show ?thesis by (rule apply_gain_in_sync) simp
  qed
qed (use assms in \<open>simp_all add: collect_def\<close>)

lemma advance_in_sync [simp]: "gain_in_sync (advance s) = gain_in_sync s"
  by (simp add: advance_def gain_in_sync_iff)

lemma step_in_sync:
  assumes "gain_in_sync s" "\<not> is_play_raises ev" "step p ev s = (s', es, c)"
  shows "gain_in_sync s'"
proof (cases ev)
  case (Collect e b)
  with assms collect_in_sync[of s e b s' es c] show ?thesis by (simp add: step_def)
next
  case (MakeResourceSettled a)
  with assms(2) have "\<forall>r. a \<noteq> PlayRaises r" by (auto simp: is_play_raises_def)
  from resume_in_sync[OF assms(1) this] assms(3) MakeResourceSettled show ?thesis
    by (simp add: step_def)
next
  case (PlayerStateChange old new)
  let ?s0 = "s\<lparr>player_status := new\<rparr>"
  have g0: "gain_in_sync ?s0" using assms(1) by (simp add: gain_in_sync_iff)
  from assms(3) PlayerStateChange have "s' = ?s0 \<or> s' = advance ?s0
      \<or> processQueue p (advance ?s0) = (s', es, c)"
    by (auto simp: step_def player_stateChange_def Let_def split: if_splits)
  with g0 show ?thesis by (auto dest: processQueue_in_sync)
next
  case PlayerError
  with assms(3) obtain es0 where "processQueue p (advance s) = (s', es0, c)"
    by (auto simp: step_def player_error_def split: prod.splits)
  from processQueue_in_sync[OF this] assms(1) show ?thesis by simp
next
  case (Enqueue new)
  with assms(3) obtain es0 where "processQueue p (s\<lparr>songs := songs s @ new\<rparr>) = (s', es0, c)"
    by (auto simp: step_def enqueue_def split: prod.splits)
  from processQueue_in_sync[OF this] assms(1) show ?thesis by (simp add: gain_in_sync_iff)
next
  case ProcessQueue
  with assms(3) have "processQueue p s = (s', es, c)" by (simp add: step_def)
  from processQueue_in_sync[OF this] assms(1) show ?thesis by simp
next
  case (ConnectionStateChange n ans)
  with assms(3) have "resource s' = resource s \<and> volume s' = volume s \<and> muted s' = muted s"
    by (auto simp: step_def connection_stateChange_def stop_attempt_def stop_def
        connection_destroy_def split: if_splits stop_outcome.splits)
  then have "gain_in_sync s' = gain_in_sync s" by (intro gain_in_sync_frame) simp_all
  with assms(1) show ?thesis by simp
next
  case BackoffElapsed
  with assms(1,3) show ?thesis by (auto simp: step_def backoff_resume_def)
next
  case (ReadyWaitSettled w d)
  with assms(1,3) show ?thesis by (auto simp: step_def ready_resume_eq gain_in_sync_iff)
qed

lemma run_in_sync:
  "gain_in_sync s \<Longrightarrow> \<forall>ev\<in>set evs. \<not> is_play_raises ev \<Longrightarrow> run p evs s = (s', es)
     \<Longrightarrow> gain_in_sync s'"
proof (induction evs arbitrary: s s' es)
  case Nil
  then show ?case by simp
next
  case (Cons ev evs)
  obtain s1 es1 c where st: "step p ev s = (s1, es1, c)" by (cases "step p ev s") auto
  obtain s2 es2 where rn: "run p evs s1 = (s2, es2)" by (cases "run p evs s1") auto
  from Cons.prems st rn have eq: "s' = s2" by auto
  from Cons.prems(2) have ne: "\<not> is_play_raises ev" by simp
  from step_in_sync[OF Cons.prems(1) ne st] have "gain_in_sync s1" .
  from Cons.IH[OF this _ rn] Cons.prems(2) eq show ?case by auto
qed

lemma collect_mute_eq:
  "collect Mute True s =
     apply_gain (if muted s then of_int (volume s) / 100 else 0)
       (if muted s then UnmutedSong else MutedSong) (s\<lparr>muted := \<not> muted s\<rparr>)"
  by (simp add: collect_def Let_def)

lemma apply_gain_Some:
  "resource s = Some r \<Longrightarrow>
     apply_gain g m s
       = (s\<lparr>resource := Some (setVolumeLogarithmic g r)\<rparr>, [RemoveReaction, Send m], Returned)"
  by (simp add: apply_gain_def)

lemma apply_gain_None:
  "resource s = None \<Longrightarrow> apply_gain g m s = (s, [RemoveReaction], Raised)"
  by (simp add: apply_gain_def)

lemma mute_toggle_flag:
  assumes "collect Mute True s = (s', es, c)"
  shows "muted s' = (\<not> muted s) \<and> volume s' = volume s"
proof -
  from assms have "apply_gain (if muted s then of_int (volume s) / 100 else 0)
       (if muted s then UnmutedSong else MutedSong) (s\<lparr>muted := \<not> muted s\<rparr>) = (s', es, c)"
    by (simp only: collect_mute_eq)
  from apply_gain_volume[OF this] show ?thesis by simp
qed

lemma mute_toggle_gain:
  assumes "collect Mute True s = (s', es, c)" "resource s = Some r" "volume_ctl r = Some g"
  shows "resource s' = Some (r\<lparr>volume_ctl := Some (if muted s' then 0 else of_int (volume s) / 100)\<rparr>)"
proof -
  let ?g = "if muted s then of_int (volume s) / 100 else (0::rat)"
  let ?m = "if muted s then UnmutedSong else MutedSong"
  let ?s1 = "s\<lparr>muted := \<not> muted s\<rparr>"
  have r1: "resource ?s1 = Some r" using assms(2) by simp
  from assms(1) have "apply_gain ?g ?m ?s1 = (s', es, c)" by (simp only: collect_mute_eq)
  then have "s' = ?s1\<lparr>resource := Some (setVolumeLogarithmic ?g r)\<rparr>"
    by (simp only: apply_gain_Some[OF r1] prod.inject)
  with assms(3) show ?thesis by (simp add: setVolumeLogarithmic_def)
qed

lemma session_fixed:
  "muted s = m \<Longrightarrow> resource s = x \<Longrightarrow> s\<lparr>muted := m, resource := x\<rparr> = s"
  by (cases s) simp

lemma session_fixed_muted: "muted s = m \<Longrightarrow> s\<lparr>muted := m\<rparr> = s"
  by (cases s) simp

lemma double_toggle:
  assumes "gain_in_sync s" "\<not> muted s"
    "run p [Collect Mute True, Collect Mute True] s = (s', es)"
  shows "s' = s"
proof (cases "resource s")
  case None
  let ?s1 = "s\<lparr>muted := True\<rparr>"
  have c1: "collect Mute True s = (?s1, [RemoveReaction], Raised)"
    using None assms(2) by (simp add: collect_mute_eq apply_gain_None)
  have c2: "collect Mute True ?s1 = (?s1\<lparr>muted := False\<rparr>, [RemoveReaction], Raised)"
    using None by (simp add: collect_mute_eq apply_gain_None)
  from assms(3) c1 c2 have "s' = ?s1\<lparr>muted := False\<rparr>" by (simp add: step_def)
  with assms(2) show ?thesis by (simp add: session_fixed_muted)
next
  case (Some r)
  let ?r1 = "setVolumeLogarithmic 0 r"
  let ?s1 = "s\<lparr>muted := True, resource := Some ?r1\<rparr>"
  let ?r2 = "setVolumeLogarithmic (of_int (volume s) / 100) ?r1"
  let ?s2 = "s\<lparr>muted := False, resource := Some ?r2\<rparr>"
  have c1: "collect Mute True s = (?s1, [RemoveReaction, Send MutedSong], Returned)"
    using Some assms(2) by (simp add: collect_mute_eq apply_gain_Some)
  have c2: "collect Mute True ?s1 = (?s2, [RemoveReaction, Send UnmutedSong], Returned)"
    by (simp add: collect_mute_eq apply_gain_Some)
  from assms(3) c1 c2 have eq: "s' = ?s2" by (simp add: step_def)
  have "?r2 = r"
  proof (cases "volume_ctl r")
    case None
    then show ?thesis by (simp add: setVolumeLogarithmic_def)
  next
    case (Some g)
    with \<open>resource s = Some r\<close> assms(1,2) have "g = of_int (volume s) / 100"
      by (simp add: gain_in_sync_iff)
    with Some have "volume_ctl r = Some (of_int (volume s) / 100)" by simp
    then show ?thesis by (cases r) (simp add: setVolumeLogarithmic_def)
  qed
  with eq Some assms(2) show ?thesis by (simp add: session_fixed)
qed

lemma double_toggle_sets_gain:
  assumes "\<not> muted s" "resource s = Some r" "volume_ctl r = Some g"
    "run p [Collect Mute True, Collect Mute True] s = (s', es)"
  shows "s' = s\<lparr>resource := Some (r\<lparr>volume_ctl := Some (of_int (volume s) / 100)\<rparr>)\<rparr>"
proof -
  let ?r1 = "setVolumeLogarithmic 0 r"
  let ?s1 = "s\<lparr>muted := True, resource := Some ?r1\<rparr>"
  let ?r2 = "setVolumeLogarithmic (of_int (volume s) / 100) ?r1"
  let ?s2 = "s\<lparr>muted := False, resource := Some ?r2\<rparr>"
  have c1: "collect Mute True s = (?s1, [RemoveReaction, Send MutedSong], Returned)"
    using assms(1,2) by (simp add: collect_mute_eq apply_gain_Some)
  have c2: "collect Mute True ?s1 = (?s2, [RemoveReaction, Send UnmutedSong], Returned)"
    by (simp add: collect_mute_eq apply_gain_Some)
  from assms(4) c1 c2 have eq: "s' = ?s2" by (simp add: step_def)
  have r2: "?r2 = r\<lparr>volume_ctl := Some (of_int (volume s) / 100)\<rparr>"
    using assms(3) by (simp add: setVolumeLogarithmic_def)
  have "s\<lparr>muted := False\<rparr> = s" using assms(1) by (simp add: session_fixed_muted)
  then have "?s2 = s\<lparr>resource := Some ?r2\<rparr>" by simp
  with eq r2 show ?thesis by simp
qed

section \<open>Facts about the muted flag\<close>

lemma processQueue_muted:
  "processQueue p (s\<lparr>muted := m\<rparr>)
     = (case processQueue p s of (s', es, c) \<Rightarrow> (s'\<lparr>muted := m\<rparr>, es, c))"
  by (simp add: processQueue_def stop_def split: list.splits)

lemma resume_muted:
  "processQueue_resume p a (s\<lparr>muted := m\<rparr>)
     = (case processQueue_resume p a s of (s', es, c) \<Rightarrow> (s'\<lparr>muted := m\<rparr>, es, c))"
  by (cases a)
     (simp_all add: processQueue_resume_def processQueue_catch_def processQueue_def stop_def
        split: list.splits)

lemma collect_muted:
  "e \<noteq> Mute \<Longrightarrow>
     collect e b (s\<lparr>muted := m\<rparr>)
       = (case collect e b s of (s', es, c) \<Rightarrow> (s'\<lparr>muted := m\<rparr>, es, c))"
  by (cases e) (simp_all add: collect_def apply_gain_def Let_def split: option.splits)

lemma step_muted:
  assumes "\<forall>b. ev \<noteq> Collect Mute b"
  shows "step p ev (s\<lparr>muted := m\<rparr>)
           = (case step p ev s of (s', es, c) \<Rightarrow> (s'\<lparr>muted := m\<rparr>, es, c))"
proof (cases ev)
  case (Collect e b)
  with assms have "e \<noteq> Mute" by auto
  with Collect show ?thesis by (simp add: step_def collect_muted)
next
  case (MakeResourceSettled a)
  then show ?thesis by (simp add: step_def resume_muted)
next
  case (PlayerStateChange old new)
  then show ?thesis
    by (auto simp: step_def player_stateChange_def advance_def processQueue_def stop_def Let_def
        split: list.splits)
next
  case PlayerError
  then show ?thesis
    by (simp add: step_def player_error_def advance_def processQueue_def stop_def
        split: list.splits)
next
  case (Enqueue new)
  then show ?thesis
    by (simp add: step_def enqueue_def processQueue_def stop_def split: list.splits)
next
  case ProcessQueue
  then show ?thesis by (simp add: step_def processQueue_muted)
next
  case (ConnectionStateChange n ans)
  then show ?thesis
    by (cases "first_stop ans"; cases "second_stop ans")
       (simp_all add: step_def connection_stateChange_def stop_attempt_def stop_def
          connection_destroy_def)
next
  case BackoffElapsed
  then show ?thesis by (simp add: step_def backoff_resume_def)
next
  case (ReadyWaitSettled w d)
  then show ?thesis by (simp add: step_def ready_resume_eq)
qed

lemma volume_down_gain:
  assumes "resource s = Some r" "volume_ctl r = Some g" "volume s \<noteq> 0"
    "collect VolumeDown True s = (s', es, c)"
  shows "muted s' = muted s \<and> volume s' = max (volume s - 10) 0
         \<and> resource s' = Some (r\<lparr>volume_ctl := Some (of_int (volume s') / 100)\<rparr>)"
  using assms by (auto simp: collect_def apply_gain_def setVolumeLogarithmic_def Let_def)

lemma volume_up_gain:
  assumes "resource s = Some r" "volume_ctl r = Some g" "volume s \<noteq> 100"
    "collect VolumeUp True s = (s', es, c)"
  shows "muted s' = muted s \<and> volume s' = min (volume s + 10) 100
         \<and> resource s' = Some (r\<lparr>volume_ctl := Some (of_int (volume s') / 100)\<rparr>)"
  using assms by (auto simp: collect_def apply_gain_def setVolumeLogarithmic_def Let_def)

section \<open>Facts about the end of the queue\<close>

lemma processQueue_stop_empties:
  "processQueue p s = (s', es, c) \<Longrightarrow> PlayerStop \<in> set es \<Longrightarrow> songs s' = []"
  by (auto simp: processQueue_def stop_def split: if_splits list.splits)

lemma catch_stop_empties:
  assumes "processQueue_catch p s = (s', es, c)" "PlayerStop \<in> set es"
  shows "songs s' = []"
proof -
  obtain sr esr cr where pq: "processQueue p s = (sr, esr, cr)" by (cases "processQueue p s") auto
  with assms(1) have eq: "s' = sr\<lparr>queueLock := False\<rparr>" "es = ConsoleError # esr"
    by (simp_all add: processQueue_catch_def)
  with assms(2) have "PlayerStop \<in> set esr" by simp
  from processQueue_stop_empties[OF pq this] eq show ?thesis by simp
qed

lemma resume_stop_empties:
  assumes "processQueue_resume p a s = (s', es, c)" "PlayerStop \<in> set es"
  shows "songs s' = []"
proof (cases a)
  case MakeRejected
  with assms catch_stop_empties[of p s s' es c] show ?thesis by (simp add: processQueue_resume_def)
next
  case MakeVoid
  obtain sr esr cr where pc: "processQueue_catch p (s\<lparr>resource := None\<rparr>) = (sr, esr, cr)"
    by (cases "processQueue_catch p (s\<lparr>resource := None\<rparr>)") auto
  with assms MakeVoid have "s' = sr" "PlayerStop \<in> set esr"
    by (auto simp: processQueue_resume_def)
  with catch_stop_empties[OF pc] show ?thesis by simp
next
  case (PlayRaises r)
  obtain sr esr cr where pc: "processQueue_catch p (s\<lparr>resource := Some r\<rparr>) = (sr, esr, cr)"
    by (cases "processQueue_catch p (s\<lparr>resource := Some r\<rparr>)") auto
  with assms PlayRaises have "s' = sr" "PlayerStop \<in> set esr"
    by (auto simp: processQueue_resume_def)
  with catch_stop_empties[OF pc] show ?thesis by simp
next
  case (Plays r)
  with assms show ?thesis by (auto simp: processQueue_resume_def)
qed

lemma step_stop_empties:
  assumes "\<not> edits_queue ev" "step p ev s = (s', es, c)" "PlayerStop \<in> set es"
  shows "songs s' = []"
proof (cases ev)
  case (PlayerStateChange old new)
  let ?s0 = "s\<lparr>player_status := new\<rparr>"
  from assms(2,3) PlayerStateChange have "processQueue p (advance ?s0) = (s', es, c)"
    by (auto simp: step_def player_stateChange_def Let_def split: if_splits)
  from processQueue_stop_empties[OF this assms(3)] show ?thesis .
next
  case (MakeResourceSettled a)
  with assms resume_stop_empties[of p a s s' es c] show ?thesis by (simp add: step_def)
next
  case (Collect e b)
  with assms show ?thesis
    by (cases e) (auto simp: step_def collect_def apply_gain_def Let_def split: if_splits option.splits)
next
  case ProcessQueue
  with assms processQueue_stop_empties[of p s s' es c] show ?thesis by (simp add: step_def)
next
  case BackoffElapsed
  with assms show ?thesis by (auto simp: step_def backoff_resume_def)
next
  case (ReadyWaitSettled w d)
  with assms show ?thesis by (auto simp: step_def ready_resume_eq split: if_splits)
qed (use assms in \<open>simp_all add: edits_queue_def\<close>)

lemma run_no_early_stop:
  "\<not> loop s \<Longrightarrow> \<forall>ev\<in>set evs. \<not> edits_queue ev \<Longrightarrow> run p evs s = (s', es)
     \<Longrightarrow> length (filter is_idle_transition evs) < length (songs s)
     \<Longrightarrow> PlayerStop \<notin> set es"
proof (induction evs arbitrary: s s' es)
  case Nil
  then show ?case by simp
next
  case (Cons ev evs)
  obtain s1 es1 c where st: "step p ev s = (s1, es1, c)" by (cases "step p ev s") auto
  obtain s2 es2 where rn: "run p evs s1 = (s2, es2)" by (cases "run p evs s1") auto
  from Cons.prems st rn have eq: "es = es1 @ es2" by auto
  from Cons.prems(2) have ne: "\<not> edits_queue ev" by simp
  from step_not_looping[OF Cons.prems(1) ne st]
  have l1: "\<not> loop s1" "songs s1 = (if is_idle_transition ev then drop 1 (songs s) else songs s)"
    by auto
  from l1(2) Cons.prems(4) have len: "length (filter is_idle_transition evs) < length (songs s1)"
    by (auto split: if_splits)
  then have "songs s1 \<noteq> []" by auto
  with step_stop_empties[OF ne st] have n1: "PlayerStop \<notin> set es1" by blast
  from Cons.IH[OF l1(1) _ rn len] Cons.prems(2) have "PlayerStop \<notin> set es2" by simp
  with n1 eq show ?case by simp
qed

lemma step_keeps_resource:
  assumes "resource s \<noteq> None" "ev \<noteq> MakeResourceSettled MakeVoid" "step p ev s = (s', es, c)"
  shows "resource s' \<noteq> None"
proof (cases ev)
  case (PlayerStateChange old new)
  with assms show ?thesis
    by (auto simp: step_def player_stateChange_def advance_def Let_def
        split: if_splits dest!: processQueue_frame)
next
  case (MakeResourceSettled a)
  with assms show ?thesis
    by (cases a)
       (auto simp: step_def processQueue_resume_def processQueue_catch_def
          split: prod.splits dest!: processQueue_frame)
next
  case (Collect e b)
  with assms show ?thesis
    by (cases e) (auto simp: step_def collect_def apply_gain_def Let_def split: if_splits option.splits)
next
  case ProcessQueue
  with assms show ?thesis by (auto simp: step_def dest!: processQueue_frame)
next
  case PlayerError
  with assms show ?thesis
    by (auto simp: step_def player_error_def advance_def split: prod.splits if_splits
        dest!: processQueue_frame)
next
  case (Enqueue new)
  with assms show ?thesis
    by (auto simp: step_def enqueue_def split: prod.splits dest!: processQueue_frame)
next
  case (ConnectionStateChange n ans)
  with assms show ?thesis
    by (auto simp: step_def connection_stateChange_def stop_attempt_def stop_def
        connection_destroy_def split: if_splits stop_outcome.splits)
next
  case BackoffElapsed
  with assms show ?thesis by (auto simp: step_def backoff_resume_def)
next
  case (ReadyWaitSettled w d)
  with assms show ?thesis by (auto simp: step_def ready_resume_eq)
qed

lemma run_stops_when_exhausted:
  "\<not> loop s \<Longrightarrow> resource s \<noteq> None \<Longrightarrow> songs s \<noteq> []
     \<Longrightarrow> \<forall>ev\<in>set evs. \<not> edits_queue ev \<and> ev \<noteq> MakeResourceSettled MakeVoid
     \<Longrightarrow> well_timed p evs s
     \<Longrightarrow> length (songs s) \<le> length (filter is_idle_transition evs)
     \<Longrightarrow> run p evs s = (s', es)
     \<Longrightarrow> PlayerStop \<in> set es \<and> (\<not> p \<longrightarrow> Send QueueEnded \<in> set es)"
proof (induction evs arbitrary: s s' es)
  case Nil
  then show ?case by simp
next
  case (Cons ev evs)
  obtain s1 es1 c where st: "step p ev s = (s1, es1, c)" by (cases "step p ev s") auto
  obtain s2 es2 where rn: "run p evs s1 = (s2, es2)" by (cases "run p evs s1") auto
  from Cons.prems(7) st rn have eq: "es = es1 @ es2" by auto
  from Cons.prems(4) have ne: "\<not> edits_queue ev" "ev \<noteq> MakeResourceSettled MakeVoid" by simp_all
  from Cons.prems(4) have rest: "\<forall>ev\<in>set evs. \<not> edits_queue ev \<and> ev \<noteq> MakeResourceSettled MakeVoid"
    by simp
  from Cons.prems(5) st have wt: "well_timed p evs s1" by simp
  from step_not_looping[OF Cons.prems(1) ne(1) st]
  have l1: "\<not> loop s1" "songs s1 = (if is_idle_transition ev then drop 1 (songs s) else songs s)"
    by auto
  from step_keeps_resource[OF Cons.prems(2) ne(2) st] have r1: "resource s1 \<noteq> None" .
  show ?case
  proof (cases "is_idle_transition ev \<and> length (songs s) = 1")
    case True
    then obtain old where ev: "ev = PlayerStateChange old Idle" "old \<noteq> Idle"
      by (cases ev) (auto simp: is_idle_transition_def)
    from Cons.prems(5) True have "\<not> queueLock s" by simp
    from final_completion[OF Cons.prems(1) this Cons.prems(2) _ ev(2), of p] True st ev
    have "es1 = PlayerStop # (if \<not> p then [Send QueueEnded] else [])" by simp
    with eq show ?thesis by simp
  next
    case False
    with l1(2) Cons.prems(3,6)
    have "songs s1 \<noteq> [] \<and> length (songs s1) \<le> length (filter is_idle_transition evs)"
      by (cases "songs s"; cases "tl (songs s)") (auto split: if_splits)
    then have "songs s1 \<noteq> []" "length (songs s1) \<le> length (filter is_idle_transition evs)"
      by simp_all
    from Cons.IH[OF l1(1) r1 this(1) rest wt this(2) rn] eq show ?thesis by simp
  qed
qed

section \<open>Claims\<close>

text \<open>
  C1. In every state of the session, an invocation of \<open>processQueue\<close> returns without
  calling \<open>play\<close> (it makes no call at all) and leaves the session as it was when
  \<open>queueLock\<close> is set or the player is not \<open>Idle\<close>. Consequently, once a first
  invocation is suspended awaiting its resource, the lock is held; it stays held through
  every run of events other than the settling of that resource, in particular through
  further invocations of \<open>processQueue\<close>, direct or from \<open>enqueue\<close> and the player's
  handlers; none of these calls \<open>play\<close>; and the whole episode, the first invocation's
  continuation included, calls \<open>play\<close> at most once.
\<close>

theorem processQueue_serialised:
  "(queueLock s \<or> player_status s \<noteq> Idle \<longrightarrow> processQueue p s = (s, [], Returned))
   \<and> (processQueue p s = (s1, es1, Awaiting)
        \<and> (\<forall>ev\<in>set evs. \<not> is_settle ev)
        \<and> run p evs s1 = (s2, es2)
        \<and> processQueue_resume p a s2 = (s3, es3, c)
      \<longrightarrow> queueLock s1 \<and> processQueue p s1 = (s1, [], Returned)
          \<and> queueLock s2 \<and> processQueue p s2 = (s2, [], Returned)
          \<and> filter is_play es2 = []
          \<and> length (filter is_play (es1 @ es2 @ es3)) \<le> 1)"
proof (intro conjI impI)
  assume "queueLock s \<or> player_status s \<noteq> Idle"
  then show "processQueue p s = (s, [], Returned)"
    using processQueue_locked processQueue_not_idle by blast
next
  assume h: "processQueue p s = (s1, es1, Awaiting)
        \<and> (\<forall>ev\<in>set evs. \<not> is_settle ev)
        \<and> run p evs s1 = (s2, es2)
        \<and> processQueue_resume p a s2 = (s3, es3, c)"
  then have l1: "queueLock s1" by (blast dest: processQueue_awaiting_locks)
  from h have p1: "filter is_play es1 = []" by (blast dest: processQueue_no_play)
  from h l1 have l2: "queueLock s2 \<and> filter is_play es2 = []"
    using run_while_locked by blast
  from h have p3: "length (filter is_play es3) \<le> 1" by (blast dest: resume_plays_once)
  show "queueLock s1" by (rule l1)
  show "processQueue p s1 = (s1, [], Returned)" using l1 by (rule processQueue_locked)
  show "queueLock s2" using l2 by simp
  show "processQueue p s2 = (s2, [], Returned)" using l2 by (simp add: processQueue_locked)
  show "filter is_play es2 = []" using l2 by simp
  show "length (filter is_play (es1 @ es2 @ es3)) \<le> 1" using p1 l2 p3 by simp
qed

theorem processQueue_serialised_witness:
  "processQueue False (idle_session\<lparr>queueLock := True\<rparr>) = (idle_session\<lparr>queueLock := True\<rparr>, [], Returned)
   \<and> processQueue False idle_session = (idle_session\<lparr>queueLock := True\<rparr>, [MakeResource 1], Awaiting)
   \<and> filter is_settle [ProcessQueue, Enqueue [3::nat], PlayerError] = []
   \<and> run False [ProcessQueue, Enqueue [3], PlayerError] (idle_session\<lparr>queueLock := True\<rparr>)
       = (idle_session\<lparr>songs := [2, 3], queueLock := True\<rparr>, [ConsoleError])
   \<and> processQueue_resume False (Plays (track_resource 1)) (idle_session\<lparr>songs := [2, 3], queueLock := True\<rparr>)
       = (idle_session\<lparr>songs := [2, 3], resource := Some (track_resource 1)\<rparr>,
          [PlayerPlay (Some (track_resource 1))], Returned)
   \<and> length (filter is_play
        ([MakeResource (1::nat)] @ [ConsoleError] @ [PlayerPlay (Some (track_resource 1))])) \<le> 1"
  using processQueue_serialised [of "idle_session\<lparr>queueLock := True\<rparr>" False]
    processQueue_serialised [of idle_session False "idle_session\<lparr>queueLock := True\<rparr>"
      "[MakeResource 1]" "[ProcessQueue, Enqueue [3], PlayerError]"
      "idle_session\<lparr>songs := [2, 3], queueLock := True\<rparr>" "[ConsoleError]"
      "Plays (track_resource 1)"
      "idle_session\<lparr>songs := [2, 3], resource := Some (track_resource 1)\<rparr>"
      "[PlayerPlay (Some (track_resource 1))]" Returned]
  by (simp add: idle_session_def track_resource_def processQueue_def step_def is_settle_def
      enqueue_def player_error_def advance_def processQueue_resume_def setVolumeLogarithmic_def
      is_play_def)

text \<open>
  C2. With \<open>loop\<close> enabled and a non-empty queue, the player's transition from a
  non-\<open>Idle\<close> state into \<open>Idle\<close> moves the queue head to the tail and leaves the
  other tracks in order (and \<open>loop\<close> stays enabled). Hence, over any run of events that
  holds as many such transitions as the queue has tracks, and otherwise anything but an
  \<open>enqueue\<close>, a player error or a connection state change (resource settlings, other
  player transitions, control inputs), the queue is back in its original order.
\<close>

theorem loop_rotation:
  "(loop s \<and> songs s \<noteq> [] \<and> old \<noteq> Idle \<and> player_stateChange p old Idle s = (s', es, c)
      \<longrightarrow> songs s' = tl (songs s) @ [hd (songs s)] \<and> loop s')
   \<and> (loop s \<and> songs s \<noteq> [] \<and> (\<forall>ev\<in>set evs. \<not> edits_queue ev)
        \<and> length (filter is_idle_transition evs) = length (songs s)
        \<and> run p evs s = (s2, es2)
      \<longrightarrow> songs s2 = songs s \<and> loop s2)"
proof (intro conjI impI)
  assume h: "loop s \<and> songs s \<noteq> [] \<and> old \<noteq> Idle \<and> player_stateChange p old Idle s = (s', es, c)"
  then have r: "songs s' = tl (songs s) @ [hd (songs s)] \<and> loop s'"
    using player_idle_looping by blast
  from r show "songs s' = tl (songs s) @ [hd (songs s)]" by simp
  from r show "loop s'" by simp
next
  assume h: "loop s \<and> songs s \<noteq> [] \<and> (\<forall>ev\<in>set evs. \<not> edits_queue ev)
        \<and> length (filter is_idle_transition evs) = length (songs s)
        \<and> run p evs s = (s2, es2)"
  then have r: "loop s2 \<and> songs s2 = rotate (length (filter is_idle_transition evs)) (songs s)"
    using run_looping by blast
  from r h show "songs s2 = songs s" by simp
  from r show "loop s2" by simp
qed

theorem loop_rotation_witness:
  "loop (playing_session\<lparr>loop := True\<rparr>) \<and> songs (playing_session\<lparr>loop := True\<rparr>) \<noteq> []
   \<and> Playing \<noteq> Idle
   \<and> player_stateChange False Playing Idle (playing_session\<lparr>loop := True\<rparr>)
       = (playing_session\<lparr>loop := True, songs := [2, 1]\<rparr>, [], Returned)
   \<and> filter edits_queue
        [PlayerStateChange Playing Idle, MakeResourceSettled (Plays (track_resource 2)),
         PlayerStateChange Buffering Playing, PlayerStateChange Playing Idle] = []
   \<and> length (filter is_idle_transition
        [PlayerStateChange Playing Idle, MakeResourceSettled (Plays (track_resource 2)),
         PlayerStateChange Buffering Playing, PlayerStateChange Playing Idle])
       = length (songs (playing_session\<lparr>loop := True\<rparr>))
   \<and> run False [PlayerStateChange Playing Idle, MakeResourceSettled (Plays (track_resource 2)),
                 PlayerStateChange Buffering Playing, PlayerStateChange Playing Idle]
        (playing_session\<lparr>loop := True\<rparr>)
       = (playing_session\<lparr>loop := True, resource := Some (track_resource 2), queueLock := True,
            player_status := Idle\<rparr>,
          [MakeResource 2, PlayerPlay (Some (track_resource 2)), SendPlayingMessage, MakeResource 1])
   \<and> songs (playing_session\<lparr>loop := True, resource := Some (track_resource 2), queueLock := True,
            player_status := Idle\<rparr>) = [1, 2]"
  using loop_rotation [of "playing_session\<lparr>loop := True\<rparr>" Playing False
      "playing_session\<lparr>loop := True, songs := [2, 1]\<rparr>" "[]" Returned
      "[PlayerStateChange Playing Idle, MakeResourceSettled (Plays (track_resource 2)),
        PlayerStateChange Buffering Playing, PlayerStateChange Playing Idle]"
      "playing_session\<lparr>loop := True, resource := Some (track_resource 2), queueLock := True,
            player_status := Idle\<rparr>"
      "[MakeResource 2, PlayerPlay (Some (track_resource 2)), SendPlayingMessage, MakeResource 1]"]
  by (simp add: playing_session_def idle_session_def track_resource_def player_stateChange_def
      advance_def processQueue_def step_def processQueue_resume_def setVolumeLogarithmic_def
      edits_queue_def is_idle_transition_def)

text \<open>
  C4. With \<open>loop\<close> disabled, every transition of the player from a non-\<open>Idle\<close> state
  into \<open>Idle\<close> removes the queue head, and nothing in a run of resource settlings,
  player transitions, \<open>processQueue\<close> calls and control inputs puts a track back: after
  such a run the queue is the original one without its first \<open>k\<close> tracks, \<open>k\<close> the
  number of \<open>Idle\<close> transitions, and \<open>player.stop()\<close> is not called while fewer
  transitions than tracks have happened. Starting from a session that was playing (a
  resource is held) with \<open>N \<ge> 1\<close> tracks queued, once \<open>N\<close> \<open>Idle\<close> transitions have
  happened, none of them while a \<open>processQueue\<close> invocation was suspended and no resource
  having resolved undefined, the queue is empty, \<open>loop\<close> is disabled and \<open>stop()\<close> has
  run: \<open>player.stop()\<close> was called and, unless pruning, the end-of-queue notice sent.
\<close>

theorem no_loop_removal:
  "(\<not> loop s \<and> (\<forall>ev\<in>set evs. \<not> edits_queue ev) \<and> run p evs s = (sa, esa)
      \<longrightarrow> songs sa = drop (length (filter is_idle_transition evs)) (songs s) \<and> \<not> loop sa
          \<and> (length (filter is_idle_transition evs) < length (songs s) \<longrightarrow> PlayerStop \<notin> set esa))
   \<and> (\<not> loop s \<and> resource s \<noteq> None \<and> songs s \<noteq> []
        \<and> (\<forall>ev\<in>set evs. \<not> edits_queue ev \<and> ev \<noteq> MakeResourceSettled MakeVoid)
        \<and> well_timed p evs s
        \<and> length (songs s) \<le> length (filter is_idle_transition evs)
        \<and> run p evs s = (sa, esa)
      \<longrightarrow> songs sa = [] \<and> \<not> loop sa \<and> PlayerStop \<in> set esa
          \<and> (\<not> p \<longrightarrow> Send QueueEnded \<in> set esa))"
proof (intro conjI impI)
  assume h: "\<not> loop s \<and> (\<forall>ev\<in>set evs. \<not> edits_queue ev) \<and> run p evs s = (sa, esa)"
  then have r: "\<not> loop sa \<and> songs sa = drop (length (filter is_idle_transition evs)) (songs s)"
    using run_not_looping by blast
  from r show "songs sa = drop (length (filter is_idle_transition evs)) (songs s)" by simp
  from r show "\<not> loop sa" by simp
  assume "length (filter is_idle_transition evs) < length (songs s)"
  with h show "PlayerStop \<notin> set esa" using run_no_early_stop by blast
next
  assume h: "\<not> loop s \<and> resource s \<noteq> None \<and> songs s \<noteq> []
        \<and> (\<forall>ev\<in>set evs. \<not> edits_queue ev \<and> ev \<noteq> MakeResourceSettled MakeVoid)
        \<and> well_timed p evs s
        \<and> length (songs s) \<le> length (filter is_idle_transition evs)
        \<and> run p evs s = (sa, esa)"
  then have ne: "\<forall>ev\<in>set evs. \<not> edits_queue ev" by blast
  from h ne have r: "\<not> loop sa \<and> songs sa = drop (length (filter is_idle_transition evs)) (songs s)"
    using run_not_looping by blast
  from r h show "songs sa = []" by simp
  from r show "\<not> loop sa" by simp
  from h have st: "PlayerStop \<in> set esa \<and> (\<not> p \<longrightarrow> Send QueueEnded \<in> set esa)"
    by (intro run_stops_when_exhausted[of s evs p sa esa]) simp_all
  from st show "PlayerStop \<in> set esa" by simp
  assume "\<not> p"
  with st show "Send QueueEnded \<in> set esa" by simp
qed

theorem no_loop_removal_witness:
  "\<not> loop playing_session \<and> resource playing_session \<noteq> None \<and> songs playing_session \<noteq> []
   \<and> filter edits_queue
        [PlayerStateChange Playing Idle, MakeResourceSettled (Plays (track_resource 2)),
         PlayerStateChange Idle Buffering, PlayerStateChange Buffering Playing,
         Collect VolumeDown True, PlayerStateChange Playing Idle] = []
   \<and> well_timed False
        [PlayerStateChange Playing Idle, MakeResourceSettled (Plays (track_resource 2)),
         PlayerStateChange Idle Buffering, PlayerStateChange Buffering Playing,
         Collect VolumeDown True, PlayerStateChange Playing Idle] playing_session
   \<and> length (songs playing_session)
       \<le> length (filter is_idle_transition
            [PlayerStateChange Playing Idle, MakeResourceSettled (Plays (track_resource 2)),
             PlayerStateChange Idle Buffering, PlayerStateChange Buffering Playing,
             Collect VolumeDown True, PlayerStateChange Playing Idle])
   \<and> run False
        [PlayerStateChange Playing Idle, MakeResourceSettled (Plays (track_resource 2)),
         PlayerStateChange Idle Buffering, PlayerStateChange Buffering Playing,
         Collect VolumeDown True, PlayerStateChange Playing Idle] playing_session
       = (playing_session\<lparr>songs := [], volume := 90,
            resource := Some \<lparr>metadata = 2, volume_ctl = Some (9 / 10)\<rparr>, player_status := Idle\<rparr>,
          [MakeResource 2, PlayerPlay (Some (track_resource 2)), SendPlayingMessage,
           RemoveReaction, Send (DecreasedVolume 90), PlayerStop, Send QueueEnded])
   \<and> PlayerStop \<in> set [MakeResource 2, PlayerPlay (Some (track_resource 2)), SendPlayingMessage,
           RemoveReaction, Send (DecreasedVolume 90), PlayerStop, Send QueueEnded]
   \<and> run False [PlayerStateChange Playing Idle, MakeResourceSettled (Plays (track_resource 2))]
        playing_session
       = (playing_session\<lparr>songs := [2], resource := Some (track_resource 2), player_status := Idle\<rparr>,
          [MakeResource 2, PlayerPlay (Some (track_resource 2))])
   \<and> PlayerStop \<notin> set [MakeResource (2::nat), PlayerPlay (Some (track_resource 2))]"
proof -
  let ?one = "[PlayerStateChange Playing Idle, MakeResourceSettled (Plays (track_resource 2))]
         :: nat event list"
  let ?sb = "playing_session\<lparr>songs := [2], resource := Some (track_resource 2),
         player_status := Idle\<rparr>"
  let ?esb = "[MakeResource 2, PlayerPlay (Some (track_resource 2))] :: nat effect list"
  have r1: "run False ?one playing_session = (?sb, ?esb)"
    by (simp add: playing_session_def idle_session_def track_resource_def
        step_def player_stateChange_def advance_def processQueue_def processQueue_resume_def
        setVolumeLogarithmic_def)
  have e1: "\<forall>ev\<in>set ?one. \<not> edits_queue ev" by (simp add: edits_queue_def)
  have i1: "length (filter is_idle_transition ?one) = 1" by (simp add: is_idle_transition_def)
  note early = no_loop_removal [of playing_session ?one False ?sb ?esb]
  let ?evs = "[PlayerStateChange Playing Idle, MakeResourceSettled (Plays (track_resource 2)),
         PlayerStateChange Idle Buffering, PlayerStateChange Buffering Playing,
         Collect VolumeDown True, PlayerStateChange Playing Idle] :: nat event list"
  let ?sa = "playing_session\<lparr>songs := [], volume := 90,
            resource := Some \<lparr>metadata = 2, volume_ctl = Some (9 / 10)\<rparr>, player_status := Idle\<rparr>"
  let ?esa = "[MakeResource 2, PlayerPlay (Some (track_resource 2)), SendPlayingMessage,
           RemoveReaction, Send (DecreasedVolume 90), PlayerStop, Send QueueEnded] :: nat effect list"
  have s: "\<not> loop playing_session" "resource playing_session \<noteq> None" "songs playing_session \<noteq> []"
    "length (songs playing_session) = 2"
    by (simp_all add: playing_session_def idle_session_def)
  have e: "\<forall>ev\<in>set ?evs. \<not> edits_queue ev \<and> ev \<noteq> MakeResourceSettled MakeVoid"
    by (simp add: edits_queue_def)
  have i: "length (filter is_idle_transition ?evs) = 2" by (simp add: is_idle_transition_def)
  have w: "well_timed False ?evs playing_session"
    by (simp add: playing_session_def idle_session_def track_resource_def is_idle_transition_def
        step_def player_stateChange_def advance_def processQueue_def processQueue_resume_def
        setVolumeLogarithmic_def collect_def apply_gain_def)
  have r: "run False ?evs playing_session = (?sa, ?esa)"
    by (simp add: playing_session_def idle_session_def track_resource_def
        step_def player_stateChange_def advance_def processQueue_def processQueue_resume_def
        setVolumeLogarithmic_def collect_def apply_gain_def stop_def)
  note fact = no_loop_removal [of playing_session ?evs False ?sa ?esa]
  from fact s e w i r have fin: "songs ?sa = [] \<and> \<not> loop ?sa \<and> PlayerStop \<in> set ?esa" by simp
  from early s e1 i1 r1 have "PlayerStop \<notin> set ?esb" by simp
  with fin s e w i r r1 show ?thesis by (simp add: edits_queue_def)
qed

text \<open>
  C3. On a connection transition into \<open>Disconnected\<close>: if the reason is a WebSocket
  close with close code 4014, the handler stops the session, whatever its calls to
  \<open>stop()\<close> do: \<open>loop\<close> is disabled and the queue cleared, \<open>player.stop()\<close> is called,
  the handler never suspends, waits or calls \<open>rejoin\<close>. When the first \<open>stop()\<close> returns,
  its calls (\<open>player.stop()\<close>, and the end-of-queue notice unless pruning) are all the
  handler does; when it raises, the error is logged and \<open>stop()\<close> is called a second
  time, and the handler ends as that second call ends. Otherwise, if
  \<open>rejoinAttempts < 5\<close>, the handler waits \<open>(rejoinAttempts + 1) * 5000\<close> ms, that is
  5 s, 10 s, 15 s, 20 s, 25 s for attempts 0 to 4, and its continuation then calls
  \<open>rejoin\<close>, on whatever the session is by then. Otherwise it calls \<open>destroy\<close> exactly
  once and nothing else, and leaves the session as it is.
\<close>

theorem disconnect_policy:
  "status n = Disconnected \<longrightarrow>
     (reason n = Some WebSocketClose \<and> closeCode n = Some 4014
        \<and> connection_stateChange p n ans s = (s', es, c) \<longrightarrow>
        s' = s\<lparr>loop := False, songs := []\<rparr>
        \<and> PlayerStop \<in> set es \<and> ConnectionRejoin \<notin> set es \<and> (\<forall>t. Wait t \<notin> set es)
        \<and> c \<noteq> Awaiting
        \<and> (snd (snd (stop_attempt p (first_stop ans) s)) \<noteq> Raised \<longrightarrow>
              es = PlayerStop # (if \<not> p then [Send QueueEnded] else []) \<and> c = Returned)
        \<and> (snd (snd (stop_attempt p (first_stop ans) s)) = Raised \<longrightarrow>
              es = fst (snd (stop_attempt p (first_stop ans) s)) @ ConsoleLog
                     # fst (snd (stop_attempt p (second_stop ans) s'))
              \<and> c = snd (snd (stop_attempt p (second_stop ans) s'))
              \<and> length (filter (\<lambda>e. e = PlayerStop) es) = 2))
     \<and> (\<not> (reason n = Some WebSocketClose \<and> closeCode n = Some 4014) \<and> rejoinAttempts s < 5 \<longrightarrow>
          connection_stateChange p n ans s = (s, [Wait ((rejoinAttempts s + 1) * 5000)], Awaiting)
          \<and> backoff_resume sa = (sa, [ConnectionRejoin], Returned)
          \<and> map (\<lambda>k. fst (snd (connection_stateChange p n ans (s\<lparr>rejoinAttempts := k\<rparr>))))
                [0, 1, 2, 3, 4]
              = [[Wait 5000], [Wait 10000], [Wait 15000], [Wait 20000], [Wait 25000]])
     \<and> (\<not> (reason n = Some WebSocketClose \<and> closeCode n = Some 4014) \<and> \<not> rejoinAttempts s < 5 \<longrightarrow>
          connection_stateChange p n ans s
            = (s, [ConnectionDestroy], if destroy_raises ans then Raised else Returned))"
proof (intro impI conjI)
  assume d: "status n = Disconnected"
    and h: "reason n = Some WebSocketClose \<and> closeCode n = Some 4014
        \<and> connection_stateChange p n ans s = (s', es, c)"
  from h have t: "reason n = Some WebSocketClose \<and> closeCode n = Some 4014"
    and cs: "connection_stateChange p n ans s = (s', es, c)" by simp_all
  note r = terminal_disconnect[OF d t cs]
  from r show "s' = s\<lparr>loop := False, songs := []\<rparr>" by blast
  from r show "PlayerStop \<in> set es" by blast
  from r show "ConnectionRejoin \<notin> set es" by blast
  from r show "\<forall>t. Wait t \<notin> set es" by blast
  from r show "c \<noteq> Awaiting" by blast
  assume nr: "snd (snd (stop_attempt p (first_stop ans) s)) \<noteq> Raised"
  from r nr show "es = PlayerStop # (if \<not> p then [Send QueueEnded] else [])" by blast
  from r nr show "c = Returned" by blast
next
  assume d: "status n = Disconnected"
    and h: "reason n = Some WebSocketClose \<and> closeCode n = Some 4014
        \<and> connection_stateChange p n ans s = (s', es, c)"
    and rs: "snd (snd (stop_attempt p (first_stop ans) s)) = Raised"
  from h have t: "reason n = Some WebSocketClose \<and> closeCode n = Some 4014"
    and cs: "connection_stateChange p n ans s = (s', es, c)" by simp_all
  note r = terminal_disconnect[OF d t cs]
  from r rs show "es = fst (snd (stop_attempt p (first_stop ans) s)) @ ConsoleLog
                     # fst (snd (stop_attempt p (second_stop ans) s'))" by blast
  from r rs show "c = snd (snd (stop_attempt p (second_stop ans) s'))" by blast
  from r rs show "length (filter (\<lambda>e. e = PlayerStop) es) = 2" by blast
next
  assume "status n = Disconnected"
    and "\<not> (reason n = Some WebSocketClose \<and> closeCode n = Some 4014) \<and> rejoinAttempts s < 5"
  then show "connection_stateChange p n ans s
      = (s, [Wait ((rejoinAttempts s + 1) * 5000)], Awaiting)"
    by (auto simp: connection_stateChange_def)
next
  show "backoff_resume sa = (sa, [ConnectionRejoin], Returned)" by (simp add: backoff_resume_def)
next
  assume "status n = Disconnected"
    and "\<not> (reason n = Some WebSocketClose \<and> closeCode n = Some 4014) \<and> rejoinAttempts s < 5"
  then show "map (\<lambda>k. fst (snd (connection_stateChange p n ans (s\<lparr>rejoinAttempts := k\<rparr>))))
                [0, 1, 2, 3, 4]
              = [[Wait 5000], [Wait 10000], [Wait 15000], [Wait 20000], [Wait 25000]]"
    by (auto simp: connection_stateChange_def)
next
  assume "status n = Disconnected"
    and "\<not> (reason n = Some WebSocketClose \<and> closeCode n = Some 4014) \<and> \<not> rejoinAttempts s < 5"
  then show "connection_stateChange p n ans s
            = (s, [ConnectionDestroy], if destroy_raises ans then Raised else Returned)"
    by (auto simp: connection_stateChange_def connection_destroy_def)
qed

theorem disconnect_policy_witness:
  "status kicked = Disconnected \<and> reason kicked = Some WebSocketClose \<and> closeCode kicked = Some 4014
   \<and> connection_stateChange False kicked calm playing_session
       = (playing_session\<lparr>songs := []\<rparr>, [PlayerStop, Send QueueEnded], Returned)
   \<and> connection_stateChange False kicked stop_fails_once playing_session
       = (playing_session\<lparr>songs := []\<rparr>, [PlayerStop, ConsoleLog, PlayerStop, Send QueueEnded],
          Returned)
   \<and> status dropped = Disconnected \<and> closeCode dropped \<noteq> Some 4014
   \<and> rejoinAttempts playing_session < 5
   \<and> connection_stateChange False dropped calm playing_session
       = (playing_session, [Wait 5000], Awaiting)
   \<and> backoff_resume playing_session = (playing_session, [ConnectionRejoin], Returned)
   \<and> \<not> rejoinAttempts (playing_session\<lparr>rejoinAttempts := 5\<rparr>) < 5
   \<and> connection_stateChange False dropped calm (playing_session\<lparr>rejoinAttempts := 5\<rparr>)
       = (playing_session\<lparr>rejoinAttempts := 5\<rparr>, [ConnectionDestroy], Returned)"
proof -
  let ?stopped = "playing_session\<lparr>songs := []\<rparr>"
  have k: "status kicked = Disconnected" "reason kicked = Some WebSocketClose"
    "closeCode kicked = Some 4014"
    by (simp_all add: kicked_def)
  have d: "status dropped = Disconnected" "closeCode dropped \<noteq> Some 4014"
    by (simp_all add: dropped_def)
  have ok: "connection_stateChange False kicked calm playing_session
       = (?stopped, [PlayerStop, Send QueueEnded], Returned)"
    by (simp add: kicked_def calm_def playing_session_def idle_session_def
        connection_stateChange_def stop_attempt_def stop_def)
  have twice: "connection_stateChange False kicked stop_fails_once playing_session
       = (?stopped, [PlayerStop, ConsoleLog, PlayerStop, Send QueueEnded], Returned)"
    by (simp add: kicked_def stop_fails_once_def playing_session_def idle_session_def
        connection_stateChange_def stop_attempt_def stop_def)
  have first_ok: "snd (snd (stop_attempt False (first_stop calm) playing_session)) \<noteq> Raised"
    by (simp add: calm_def stop_attempt_def stop_def)
  have first_raises:
    "snd (snd (stop_attempt False (first_stop stop_fails_once) playing_session)) = Raised"
    by (simp add: stop_fails_once_def stop_attempt_def)
  have few: "rejoinAttempts playing_session < 5"
    by (simp add: playing_session_def idle_session_def)
  have many: "\<not> rejoinAttempts (playing_session\<lparr>rejoinAttempts := 5\<rparr>) < 5" by simp
  have calm_destroy: "\<not> destroy_raises calm" by (simp add: calm_def)
  note on_kick = disconnect_policy [of kicked False calm playing_session ?stopped
      "[PlayerStop, Send QueueEnded]" Returned playing_session]
  note on_kick_raise = disconnect_policy [of kicked False stop_fails_once playing_session ?stopped
      "[PlayerStop, ConsoleLog, PlayerStop, Send QueueEnded]" Returned playing_session]
  note on_drop = disconnect_policy [of dropped False calm playing_session ?stopped "[]" Returned
      playing_session]
  note on_last = disconnect_policy [of dropped False calm "playing_session\<lparr>rejoinAttempts := 5\<rparr>"
      ?stopped "[]" Returned playing_session]
  from on_kick k ok first_ok have a: "PlayerStop \<in> set [PlayerStop, Send QueueEnded :: nat effect]"
    by blast
  from on_kick_raise k twice first_raises
  have b: "length (filter (\<lambda>e. e = PlayerStop)
             [PlayerStop, ConsoleLog, PlayerStop, Send QueueEnded :: nat effect]) = 2"
    by blast
  from on_drop d few
  have w: "connection_stateChange False dropped calm playing_session
       = (playing_session, [Wait ((rejoinAttempts playing_session + 1) * 5000)], Awaiting)"
    and bo: "backoff_resume playing_session = (playing_session, [ConnectionRejoin], Returned)"
    by blast+
  from on_last d many calm_destroy
  have x: "connection_stateChange False dropped calm (playing_session\<lparr>rejoinAttempts := 5\<rparr>)
       = (playing_session\<lparr>rejoinAttempts := 5\<rparr>, [ConnectionDestroy], Returned)"
    by simp
  from w have w5: "connection_stateChange False dropped calm playing_session
       = (playing_session, [Wait 5000], Awaiting)"
    by (simp add: playing_session_def idle_session_def)
  from k d few many ok twice w5 bo x a b show ?thesis by simp
qed

text \<open>
  C6. On a connection transition into \<open>Connecting\<close> or \<open>Signalling\<close>, the handler
  enters the ready-wait (20 s deadline) only when \<open>readyLock\<close> is false, and sets it;
  with \<open>readyLock\<close> set the handler does nothing. The lock stays set through every run
  of events other than the settling of that wait, and no second wait is entered
  meanwhile. When the wait settles (Ready reached, timeout, or error) the continuation
  leaves \<open>readyLock\<close> false and changes nothing else; it calls \<open>destroy\<close>, once, exactly
  when the wait failed and the connection is not already \<open>Destroyed\<close>; and it returns
  normally whether or not that \<open>destroy\<close> raises.
\<close>

theorem ready_wait_lock:
  "((status n = Connecting \<or> status n = Signalling) \<longrightarrow>
       (readyLock s \<longrightarrow> connection_stateChange p n ans s = (s, [], Returned))
     \<and> (\<not> readyLock s \<longrightarrow>
          connection_stateChange p n ans s
            = (s\<lparr>readyLock := True\<rparr>, [EntersStateReady 20000], Awaiting)))
   \<and> (readyLock s \<and> (\<forall>ev\<in>set evs. \<not> is_ready_settle ev) \<and> run p evs s = (sa, esa)
        \<longrightarrow> readyLock sa \<and> (\<forall>t. EntersStateReady t \<notin> set esa))
   \<and> (ready_resume w destroyRaises s = (sb, esb, c)
        \<longrightarrow> \<not> readyLock sb \<and> sb = s\<lparr>readyLock := False\<rparr> \<and> c = Returned
            \<and> (ConnectionDestroy \<in> set esb
                 \<longleftrightarrow> w \<noteq> ReadyReached \<and> connection_status s \<noteq> Destroyed)
            \<and> length (filter (\<lambda>e. e = ConnectionDestroy) esb) \<le> 1)"
proof (intro conjI impI)
  assume "status n = Connecting \<or> status n = Signalling" "readyLock s"
  then show "connection_stateChange p n ans s = (s, [], Returned)"
    by (auto simp: connection_stateChange_def)
next
  assume "status n = Connecting \<or> status n = Signalling" "\<not> readyLock s"
  then show "connection_stateChange p n ans s
            = (s\<lparr>readyLock := True\<rparr>, [EntersStateReady 20000], Awaiting)"
    by (auto simp: connection_stateChange_def)
next
  assume h: "readyLock s \<and> (\<forall>ev\<in>set evs. \<not> is_ready_settle ev) \<and> run p evs s = (sa, esa)"
  then have r: "readyLock sa \<and> (\<forall>t. EntersStateReady t \<notin> set esa)"
    using run_while_ready_locked by blast
  from r show "readyLock sa" by simp
  from r show "\<forall>t. EntersStateReady t \<notin> set esa" by simp
next
  assume h: "ready_resume w destroyRaises s = (sb, esb, c)"
  then have eq: "sb = s\<lparr>readyLock := False\<rparr>" "c = Returned"
    "esb = (if w \<noteq> ReadyReached \<and> connection_status s \<noteq> Destroyed then [ConnectionDestroy] else [])"
    by (simp_all add: ready_resume_eq)
  from eq show "\<not> readyLock sb" by simp
  from eq show "sb = s\<lparr>readyLock := False\<rparr>" by simp
  from eq show "c = Returned" by simp
  from eq show "ConnectionDestroy \<in> set esb
                 \<longleftrightarrow> w \<noteq> ReadyReached \<and> connection_status s \<noteq> Destroyed" by simp
  from eq show "length (filter (\<lambda>e. e = ConnectionDestroy) esb) \<le> 1" by simp
qed

theorem ready_wait_lock_witness:
  "status connecting = Connecting
   \<and> readyLock (idle_session\<lparr>readyLock := True\<rparr>)
   \<and> connection_stateChange False connecting calm (idle_session\<lparr>readyLock := True\<rparr>)
       = (idle_session\<lparr>readyLock := True\<rparr>, [], Returned)
   \<and> \<not> readyLock idle_session
   \<and> connection_stateChange False connecting calm idle_session
       = (idle_session\<lparr>readyLock := True\<rparr>, [EntersStateReady 20000], Awaiting)
   \<and> filter is_ready_settle [ConnectionStateChange connecting calm, PlayerError :: nat event] = []
   \<and> run False [ConnectionStateChange connecting calm, PlayerError] (idle_session\<lparr>readyLock := True\<rparr>)
       = (idle_session\<lparr>readyLock := True, connection_status := Connecting, songs := [2],
            queueLock := True\<rparr>, [ConsoleError, MakeResource 2])
   \<and> ready_resume ReadyTimeout True (idle_session\<lparr>readyLock := True\<rparr>)
       = (idle_session, [ConnectionDestroy], Returned)"
  using ready_wait_lock [of connecting "idle_session\<lparr>readyLock := True\<rparr>" False calm
      "[ConnectionStateChange connecting calm, PlayerError]"
      "idle_session\<lparr>readyLock := True, connection_status := Connecting, songs := [2],
            queueLock := True\<rparr>" "[ConsoleError, MakeResource 2]"
      ReadyTimeout True idle_session "[ConnectionDestroy]" Returned]
    ready_wait_lock [of connecting idle_session False calm "[]" idle_session "[]"
      ReadyReached False idle_session "[]" Returned]
  by (simp add: connecting_def calm_def idle_session_def connection_stateChange_def step_def
      is_ready_settle_def player_error_def advance_def processQueue_def ready_resume_def
      connection_destroy_def swallow_def)

text \<open>
  C5. \<open>processQueue\<close> never edits the queue itself, neither up to its \<open>await\<close> nor in
  its continuation, and its continuation leaves \<open>queueLock\<close> false on the success path
  and on every failure path. When the attempt fails (\<open>makeResource\<close> rejects or resolves
  with nothing, or \<open>play\<close> raises), the error is logged and the continuation then
  re-invokes \<open>processQueue\<close>, on a session with the same queue, lock and player status;
  what the continuation returns is what that recursive call returns, with the lock
  released afterwards.
\<close>

theorem resource_failure_path:
  "(processQueue p s = (sa, esa, ca) \<longrightarrow> songs sa = songs s)
   \<and> (processQueue_resume p a s = (s', es, c) \<longrightarrow>
        songs s' = songs s \<and> \<not> queueLock s'
        \<and> ((\<forall>r. a \<noteq> Plays r) \<longrightarrow>
              ConsoleError \<in> set es
              \<and> (\<exists>s0 pre sr esr.
                    songs s0 = songs s \<and> queueLock s0 = queueLock s
                    \<and> player_status s0 = player_status s
                    \<and> processQueue p s0 = (sr, esr, c)
                    \<and> s' = sr\<lparr>queueLock := False\<rparr> \<and> es = pre @ ConsoleError # esr)))"
proof (intro conjI impI)
  assume "processQueue p s = (sa, esa, ca)"
  then show "songs sa = songs s" by (rule processQueue_songs)
next
  assume "processQueue_resume p a s = (s', es, c)"
  then show "songs s' = songs s" by (rule resume_songs)
next
  assume "processQueue_resume p a s = (s', es, c)"
  then show "\<not> queueLock s'" by (rule resume_unlocks)
next
  assume h: "processQueue_resume p a s = (s', es, c)" and f: "\<forall>r. a \<noteq> Plays r"
  from resume_failure_shape[OF f h] obtain s0 pre sr esr where
    sh: "songs s0 = songs s \<and> queueLock s0 = queueLock s \<and> player_status s0 = player_status s
           \<and> processQueue p s0 = (sr, esr, c)
           \<and> s' = sr\<lparr>queueLock := False\<rparr> \<and> es = pre @ ConsoleError # esr" by blast
  then show "ConsoleError \<in> set es" by simp
  from sh show "\<exists>s0 pre sr esr.
                    songs s0 = songs s \<and> queueLock s0 = queueLock s
                    \<and> player_status s0 = player_status s
                    \<and> processQueue p s0 = (sr, esr, c)
                    \<and> s' = sr\<lparr>queueLock := False\<rparr> \<and> es = pre @ ConsoleError # esr" by blast
qed

theorem resource_failure_path_witness:
  "processQueue False idle_session = (idle_session\<lparr>queueLock := True\<rparr>, [MakeResource 1], Awaiting)
   \<and> songs (idle_session\<lparr>queueLock := True\<rparr>) = songs idle_session
   \<and> processQueue_resume False MakeRejected (idle_session\<lparr>queueLock := True\<rparr>)
       = (idle_session, [ConsoleError], Returned)
   \<and> processQueue_resume False (Plays (track_resource 1)) (idle_session\<lparr>queueLock := True\<rparr>)
       = (idle_session\<lparr>resource := Some (track_resource 1)\<rparr>,
          [PlayerPlay (Some (track_resource 1))], Returned)
   \<and> \<not> queueLock idle_session
   \<and> \<not> queueLock (idle_session\<lparr>resource := Some (track_resource 1)\<rparr>)
   \<and> ConsoleError \<in> set [ConsoleError :: nat effect]"
  using resource_failure_path [of False idle_session "idle_session\<lparr>queueLock := True\<rparr>"
      "[MakeResource 1]" Awaiting MakeRejected idle_session "[]" Returned]
    resource_failure_path [of False "idle_session\<lparr>queueLock := True\<rparr>"
      "idle_session\<lparr>queueLock := True\<rparr>" "[]" Returned MakeRejected idle_session
      "[ConsoleError]" Returned]
    resource_failure_path [of False "idle_session\<lparr>queueLock := True\<rparr>"
      "idle_session\<lparr>queueLock := True\<rparr>" "[]" Returned "Plays (track_resource 1)"
      "idle_session\<lparr>resource := Some (track_resource 1)\<rparr>"
      "[PlayerPlay (Some (track_resource 1))]" Returned]
  by (simp add: idle_session_def track_resource_def processQueue_def processQueue_resume_def
      processQueue_catch_def setVolumeLogarithmic_def)

text \<open>
  C9. The continuation of a suspended \<open>processQueue\<close> runs with \<open>queueLock\<close> set. On a
  failed attempt its recursive call is therefore evaluated under the lock, before the
  \<open>finally\<close> block releases it: the call returns at once, changing nothing and making no
  call, so the continuation returns without suspending again, requests no resource and
  leaves the queue as it is. Hence one trigger of \<open>processQueue\<close> that suspends, whatever
  events other than its own settling arrive meanwhile and however its attempt ends,
  requests exactly one resource and returns once its continuation has run.
\<close>

theorem failed_attempt_recursion:
  "(queueLock s \<and> (\<forall>r. a \<noteq> Plays r) \<and> processQueue_resume p a s = (s', es, c) \<longrightarrow>
        c = Returned \<and> filter is_make es = [] \<and> songs s' = songs s \<and> \<not> queueLock s'
        \<and> (\<exists>s0 pre. processQueue p s0 = (s0, [], Returned)
              \<and> s' = s0\<lparr>queueLock := False\<rparr> \<and> es = pre @ [ConsoleError]))
   \<and> (processQueue p s = (sa, esa, Awaiting) \<and> (\<forall>ev\<in>set evs. \<not> is_settle ev)
        \<and> run p evs sa = (sb, esb) \<and> processQueue_resume p a sb = (sc, esc, c) \<longrightarrow>
        queueLock sb \<and> c = Returned \<and> length (filter is_make (esa @ esb @ esc)) = 1)"
proof (intro conjI impI)
  assume h: "queueLock s \<and> (\<forall>r. a \<noteq> Plays r) \<and> processQueue_resume p a s = (s', es, c)"
  then have lk: "queueLock s" and f: "\<forall>r. a \<noteq> Plays r"
    and rs: "processQueue_resume p a s = (s', es, c)" by simp_all
  from resume_while_locked[OF lk rs] show "c = Returned" "filter is_make es = []" "\<not> queueLock s'"
    by simp_all
  from resume_songs[OF rs] show "songs s' = songs s" .
  from resume_failure_shape[OF f rs] obtain s0 pre sr esr where
    sh: "queueLock s0 = queueLock s" "processQueue p s0 = (sr, esr, c)"
      "s' = sr\<lparr>queueLock := False\<rparr>" "es = pre @ ConsoleError # esr" by blast
  from sh(1) lk have "processQueue p s0 = (s0, [], Returned)" by (simp add: processQueue_locked)
  with sh show "\<exists>s0 pre. processQueue p s0 = (s0, [], Returned)
              \<and> s' = s0\<lparr>queueLock := False\<rparr> \<and> es = pre @ [ConsoleError]" by auto
next
  assume h: "processQueue p s = (sa, esa, Awaiting) \<and> (\<forall>ev\<in>set evs. \<not> is_settle ev)
        \<and> run p evs sa = (sb, esb) \<and> processQueue_resume p a sb = (sc, esc, c)"
  then have st: "processQueue p s = (sa, esa, Awaiting)" and ns: "\<forall>ev\<in>set evs. \<not> is_settle ev"
    and rn: "run p evs sa = (sb, esb)" and rs: "processQueue_resume p a sb = (sc, esc, c)"
    by simp_all
  from processQueue_awaiting_locks[OF st] have la: "queueLock sa" .
  from run_while_locked[OF la ns rn] have lb: "queueLock sb" by simp
  from run_locked_no_make[OF la ns rn] have mb: "filter is_make esb = []" .
  from resume_while_locked[OF lb rs] have mc: "c = Returned" "filter is_make esc = []" by simp_all
  from processQueue_awaiting_makes[OF st] have ma: "length (filter is_make esa) = 1" .
  show "queueLock sb" by (rule lb)
  show "c = Returned" by (rule mc)
  from ma mb mc show "length (filter is_make (esa @ esb @ esc)) = 1" by simp
qed

theorem failed_attempt_recursion_witness:
  "queueLock (idle_session\<lparr>queueLock := True\<rparr>)
   \<and> processQueue_resume False (PlayRaises (track_resource 1)) (idle_session\<lparr>queueLock := True\<rparr>)
       = (idle_session\<lparr>resource := Some (track_resource 1)\<rparr>,
          [PlayerPlay (Some (track_resource 1)), ConsoleError], Returned)
   \<and> processQueue False idle_session = (idle_session\<lparr>queueLock := True\<rparr>, [MakeResource 1], Awaiting)
   \<and> filter is_settle [ProcessQueue, PlayerError :: nat event] = []
   \<and> run False [ProcessQueue, PlayerError] (idle_session\<lparr>queueLock := True\<rparr>)
       = (idle_session\<lparr>songs := [2], queueLock := True\<rparr>, [ConsoleError])
   \<and> processQueue_resume False MakeRejected (idle_session\<lparr>songs := [2], queueLock := True\<rparr>)
       = (idle_session\<lparr>songs := [2]\<rparr>, [ConsoleError], Returned)
   \<and> length (filter is_make ([MakeResource (1::nat)] @ [ConsoleError] @ [ConsoleError])) = 1"
  using failed_attempt_recursion [of "idle_session\<lparr>queueLock := True\<rparr>"
      "PlayRaises (track_resource 1)" False
      "idle_session\<lparr>resource := Some (track_resource 1)\<rparr>"
      "[PlayerPlay (Some (track_resource 1)), ConsoleError]" Returned
      "idle_session\<lparr>queueLock := True\<rparr>" "[]" "[]" "idle_session\<lparr>queueLock := True\<rparr>" "[]"
      "idle_session" "[]"]
    failed_attempt_recursion [of idle_session MakeRejected False
      "idle_session\<lparr>songs := [2]\<rparr>" "[ConsoleError]" Returned
      "idle_session\<lparr>queueLock := True\<rparr>" "[MakeResource 1]" "[ProcessQueue, PlayerError]"
      "idle_session\<lparr>songs := [2], queueLock := True\<rparr>" "[ConsoleError]"
      "idle_session\<lparr>songs := [2]\<rparr>" "[ConsoleError]"]
  by (simp add: idle_session_def track_resource_def processQueue_def processQueue_resume_def
      processQueue_catch_def step_def player_error_def advance_def is_settle_def is_make_def)

text \<open>
  C7. If the stored volume is in \<open>[0, 100]\<close>, it is still there after any run of events,
  in particular after any sequence of accepted volume-up and volume-down inputs.
  Volume-down leaves the session untouched (it only removes the reaction) when the volume
  is 0 or the user may not modify the queue, and otherwise sets the volume to
  \<open>max (volume - 10) 0\<close>; volume-up does so at 100 and otherwise sets it to
  \<open>min (volume + 10) 100\<close>. Five accepted volume-ups from 50 end at 100; five accepted
  volume-downs from 20 end at 0, and a sixth changes nothing.
\<close>

theorem volume_stays_in_range:
  "(0 \<le> volume s \<and> volume s \<le> 100 \<and> run p evs s = (sa, esa)
      \<longrightarrow> 0 \<le> volume sa \<and> volume sa \<le> 100)
   \<and> (collect VolumeDown b s = (sb, esb, cb) \<longrightarrow>
        (volume s = 0 \<or> \<not> b \<longrightarrow> sb = s \<and> esb = [RemoveReaction] \<and> cb = Returned)
        \<and> (volume s \<noteq> 0 \<and> b \<longrightarrow> volume sb = max (volume s - 10) 0))
   \<and> (collect VolumeUp b s = (sc, esc, cc) \<longrightarrow>
        (volume s = 100 \<or> \<not> b \<longrightarrow> sc = s \<and> esc = [RemoveReaction] \<and> cc = Returned)
        \<and> (volume s \<noteq> 100 \<and> b \<longrightarrow> volume sc = min (volume s + 10) 100))
   \<and> (volume s = 50 \<and> run p (replicate 5 (Collect VolumeUp True)) s = (sd, esd)
        \<longrightarrow> volume sd = 100)
   \<and> (volume s = 20 \<and> run p (replicate 5 (Collect VolumeDown True)) s = (se, ese)
        \<longrightarrow> volume se = 0 \<and> step p (Collect VolumeDown True) se = (se, [RemoveReaction], Returned))"
proof (intro conjI)
  show "0 \<le> volume s \<and> volume s \<le> 100 \<and> run p evs s = (sa, esa)
      \<longrightarrow> 0 \<le> volume sa \<and> volume sa \<le> 100"
    using run_volume_range by blast
  show "collect VolumeDown b s = (sb, esb, cb) \<longrightarrow>
        (volume s = 0 \<or> \<not> b \<longrightarrow> sb = s \<and> esb = [RemoveReaction] \<and> cb = Returned)
        \<and> (volume s \<noteq> 0 \<and> b \<longrightarrow> volume sb = max (volume s - 10) 0)"
    using volume_down_cases by blast
  show "collect VolumeUp b s = (sc, esc, cc) \<longrightarrow>
        (volume s = 100 \<or> \<not> b \<longrightarrow> sc = s \<and> esc = [RemoveReaction] \<and> cc = Returned)
        \<and> (volume s \<noteq> 100 \<and> b \<longrightarrow> volume sc = min (volume s + 10) 100)"
    using volume_up_cases by blast
  show "volume s = 50 \<and> run p (replicate 5 (Collect VolumeUp True)) s = (sd, esd)
        \<longrightarrow> volume sd = 100"
  proof
    assume h: "volume s = 50 \<and> run p (replicate 5 (Collect VolumeUp True)) s = (sd, esd)"
    then have "volume sd = min (volume s + 10 * int 5) 100"
      by (intro run_volume_ups[of p 5 s sd esd]) simp_all
    with h show "volume sd = 100" by simp
  qed
  show "volume s = 20 \<and> run p (replicate 5 (Collect VolumeDown True)) s = (se, ese)
        \<longrightarrow> volume se = 0 \<and> step p (Collect VolumeDown True) se = (se, [RemoveReaction], Returned)"
  proof
    assume h: "volume s = 20 \<and> run p (replicate 5 (Collect VolumeDown True)) s = (se, ese)"
    then have "volume se = max (volume s - 10 * int 5) 0"
      by (intro run_volume_downs[of p 5 s se ese]) simp_all
    with h have z: "volume se = 0" by simp
    then show "volume se = 0 \<and> step p (Collect VolumeDown True) se = (se, [RemoveReaction], Returned)"
      by (simp add: step_def collect_def)
  qed
qed

theorem volume_stays_in_range_witness:
  "0 \<le> volume (playing_session\<lparr>volume := 50\<rparr>) \<and> volume (playing_session\<lparr>volume := 50\<rparr>) \<le> 100
   \<and> run False (replicate 5 (Collect VolumeUp True)) (playing_session\<lparr>volume := 50\<rparr>)
       = (playing_session,
          [RemoveReaction, Send (IncreasedVolume 60), RemoveReaction, Send (IncreasedVolume 70),
           RemoveReaction, Send (IncreasedVolume 80), RemoveReaction, Send (IncreasedVolume 90),
           RemoveReaction, Send (IncreasedVolume 100)])
   \<and> volume playing_session = 100
   \<and> collect VolumeUp True playing_session = (playing_session, [RemoveReaction], Returned)
   \<and> collect VolumeUp True (playing_session\<lparr>volume := 50\<rparr>)
       = (playing_session\<lparr>volume := 60,
            resource := Some \<lparr>metadata = 1, volume_ctl = Some (3 / 5)\<rparr>\<rparr>,
          [RemoveReaction, Send (IncreasedVolume 60)], Returned)
   \<and> collect VolumeDown False (playing_session\<lparr>volume := 20\<rparr>)
       = (playing_session\<lparr>volume := 20\<rparr>, [RemoveReaction], Returned)
   \<and> collect VolumeDown True (playing_session\<lparr>volume := 20\<rparr>)
       = (playing_session\<lparr>volume := 10,
            resource := Some \<lparr>metadata = 1, volume_ctl = Some (1 / 10)\<rparr>\<rparr>,
          [RemoveReaction, Send (DecreasedVolume 10)], Returned)
   \<and> run False (replicate 5 (Collect VolumeDown True)) (playing_session\<lparr>volume := 20\<rparr>)
       = (playing_session\<lparr>volume := 0, resource := Some \<lparr>metadata = 1, volume_ctl = Some 0\<rparr>\<rparr>,
          [RemoveReaction, Send (DecreasedVolume 10), RemoveReaction, Send (DecreasedVolume 0),
           RemoveReaction, RemoveReaction, RemoveReaction])
   \<and> step False (Collect VolumeDown True)
        (playing_session\<lparr>volume := 0, resource := Some \<lparr>metadata = 1, volume_ctl = Some 0\<rparr>\<rparr>)
       = (playing_session\<lparr>volume := 0, resource := Some \<lparr>metadata = 1, volume_ctl = Some 0\<rparr>\<rparr>,
          [RemoveReaction], Returned)"
proof -
  let ?up = "[RemoveReaction, Send (IncreasedVolume 60), RemoveReaction, Send (IncreasedVolume 70),
           RemoveReaction, Send (IncreasedVolume 80), RemoveReaction, Send (IncreasedVolume 90),
           RemoveReaction, Send (IncreasedVolume 100)] :: nat effect list"
  let ?down = "[RemoveReaction, Send (DecreasedVolume 10), RemoveReaction, Send (DecreasedVolume 0),
           RemoveReaction, RemoveReaction, RemoveReaction] :: nat effect list"
  let ?v10 = "playing_session\<lparr>volume := 10,
            resource := Some \<lparr>metadata = 1, volume_ctl = Some (1 / 10)\<rparr>\<rparr>"
  let ?v0 = "playing_session\<lparr>volume := 0, resource := Some \<lparr>metadata = 1, volume_ctl = Some 0\<rparr>\<rparr>"
  have ups: "run False (replicate 5 (Collect VolumeUp True)) (playing_session\<lparr>volume := 50\<rparr>)
       = (playing_session, ?up)"
    by (simp add: replicate_five playing_session_def idle_session_def track_resource_def step_def
        collect_def apply_gain_def setVolumeLogarithmic_def)
  have down1: "collect VolumeDown True (playing_session\<lparr>volume := 20\<rparr>)
       = (?v10, [RemoveReaction, Send (DecreasedVolume 10)], Returned)"
    by (simp add: playing_session_def idle_session_def track_resource_def
        collect_def apply_gain_def setVolumeLogarithmic_def)
  have downs: "run False (replicate 5 (Collect VolumeDown True)) (playing_session\<lparr>volume := 20\<rparr>)
       = (?v0, ?down)"
    by (simp add: replicate_five playing_session_def idle_session_def track_resource_def step_def
        collect_def apply_gain_def setVolumeLogarithmic_def)
  let ?v60 = "playing_session\<lparr>volume := 60,
            resource := Some \<lparr>metadata = 1, volume_ctl = Some (3 / 5)\<rparr>\<rparr>"
  have up1: "collect VolumeUp True (playing_session\<lparr>volume := 50\<rparr>)
       = (?v60, [RemoveReaction, Send (IncreasedVolume 60)], Returned)"
    by (simp add: playing_session_def idle_session_def track_resource_def
        collect_def apply_gain_def setVolumeLogarithmic_def)
  have top: "collect VolumeUp True playing_session = (playing_session, [RemoveReaction], Returned)"
    by (simp add: playing_session_def idle_session_def collect_def)
  have refused: "collect VolumeDown False (playing_session\<lparr>volume := 20\<rparr>)
       = (playing_session\<lparr>volume := 20\<rparr>, [RemoveReaction], Returned)"
    by (simp add: collect_def)
  have v100: "volume playing_session = 100" by (simp add: playing_session_def idle_session_def)
  have v50: "volume (playing_session\<lparr>volume := 50\<rparr>) = 50" by simp
  have v20: "volume (playing_session\<lparr>volume := 20\<rparr>) = 20" by simp
  note up_fact = volume_stays_in_range [of "playing_session\<lparr>volume := 50\<rparr>" False
      "replicate 5 (Collect VolumeUp True)" playing_session ?up True playing_session "[]" Returned
      ?v60 "[RemoveReaction, Send (IncreasedVolume 60)]" Returned playing_session ?up
      playing_session "[]"]
  note top_fact = volume_stays_in_range [of playing_session False "[]" playing_session "[]" True
      playing_session "[]" Returned playing_session "[RemoveReaction]" Returned
      playing_session "[]" playing_session "[]"]
  note refused_fact = volume_stays_in_range [of "playing_session\<lparr>volume := 20\<rparr>" False "[]"
      "playing_session\<lparr>volume := 20\<rparr>" "[]" False
      "playing_session\<lparr>volume := 20\<rparr>" "[RemoveReaction]" Returned
      playing_session "[]" Returned playing_session "[]" playing_session "[]"]
  note down_fact = volume_stays_in_range [of "playing_session\<lparr>volume := 20\<rparr>" False
      "replicate 5 (Collect VolumeDown True)" ?v0 ?down True ?v10
      "[RemoveReaction, Send (DecreasedVolume 10)]" Returned
      playing_session "[]" Returned playing_session "[]" ?v0 ?down]
  from up_fact ups v50 have a: "volume playing_session = 100" by blast
  from up_fact up1 v50 have a1: "volume ?v60 = min (volume (playing_session\<lparr>volume := 50\<rparr>) + 10) 100"
    by simp
  from top_fact top v100 have a2: "playing_session = playing_session" by blast
  from refused_fact refused
  have a3: "playing_session\<lparr>volume := 20\<rparr> = playing_session\<lparr>volume := 20\<rparr>" by blast
  from down_fact downs v20
  have b: "step False (Collect VolumeDown True) ?v0 = (?v0, [RemoveReaction], Returned)" by blast
  from ups up1 top refused down1 downs a a1 a2 a3 b show ?thesis by simp
qed

text \<open>
  C8, as the claim states it, fails. A session at volume 50 plays with gain 1/2; the
  track ends, the next resource is made (at its initial gain 1) and stored, \<open>play\<close>
  raises, and line 128 is skipped. The session is unmuted and its resource has gain 1.
  Two accepted mute toggles leave that gain at 1/2: the pre-mute gain is not restored.
\<close>

theorem mute_twice_stale_gain_counterexample:
  "run False [PlayerStateChange Playing Idle, MakeResourceSettled (PlayRaises (track_resource 2))]
     half_volume_session
     = (stale_gain_session, [MakeResource 2, PlayerPlay (Some (track_resource 2)), ConsoleError])
   \<and> \<not> muted stale_gain_session \<and> volume stale_gain_session = 50
   \<and> resource stale_gain_session = Some \<lparr>metadata = 2, volume_ctl = Some 1\<rparr>
   \<and> run False [Collect Mute True, Collect Mute True] stale_gain_session
       = (stale_gain_session\<lparr>resource := Some \<lparr>metadata = 2, volume_ctl = Some (1 / 2)\<rparr>\<rparr>,
          [RemoveReaction, Send MutedSong, RemoveReaction, Send UnmutedSong])
   \<and> (1 :: rat) \<noteq> 1 / 2"
  by (simp add: stale_gain_session_def half_volume_session_def playing_session_def
      idle_session_def track_resource_def step_def player_stateChange_def advance_def
      processQueue_def processQueue_resume_def processQueue_catch_def collect_def apply_gain_def
      setVolumeLogarithmic_def)

text \<open>
  C8, amended. An accepted mute toggle flips \<open>muted\<close> and leaves the stored volume
  unchanged. On a resource with a volume control it sets the gain to 0 when \<open>muted\<close>
  becomes true and to \<open>volume / 100\<close> when it becomes false. So two accepted toggles from
  an unmuted session change nothing but the gain, which they leave at \<open>volume / 100\<close>:
  they restore the exact pre-mute gain when that gain was \<open>volume / 100\<close>, and then give
  back exactly the session they started from. That is the case of every unmuted session
  reached from one with no resource by any run of events in which \<open>play\<close> did not raise.
\<close>

theorem mute_toggle_restores_gain:
  "(collect Mute True s = (sa, esa, ca) \<longrightarrow> muted sa = (\<not> muted s) \<and> volume sa = volume s)
   \<and> (resource s = Some r \<and> volume_ctl r = Some g \<and> collect Mute True s = (sa, esa, ca) \<longrightarrow>
        resource sa
          = Some (r\<lparr>volume_ctl := Some (if muted sa then 0 else of_int (volume s) / 100)\<rparr>))
   \<and> (\<not> muted s \<and> resource s = Some r \<and> volume_ctl r = Some g
        \<and> run p [Collect Mute True, Collect Mute True] s = (sb, esb) \<longrightarrow>
        sb = s\<lparr>resource := Some (r\<lparr>volume_ctl := Some (of_int (volume s) / 100)\<rparr>)\<rparr>)
   \<and> (\<not> muted s \<and> resource s = Some r \<and> volume_ctl r = Some (of_int (volume s) / 100)
        \<and> run p [Collect Mute True, Collect Mute True] s = (sb, esb) \<longrightarrow> sb = s)
   \<and> (resource s0 = None \<and> (\<forall>ev\<in>set evs. \<not> is_play_raises ev) \<and> run p evs s0 = (s, es)
        \<and> \<not> muted s \<and> run p [Collect Mute True, Collect Mute True] s = (sb, esb) \<longrightarrow> sb = s)"
proof (intro conjI impI)
  assume h: "collect Mute True s = (sa, esa, ca)"
  from mute_toggle_flag[OF h] show "muted sa = (\<not> muted s)" "volume sa = volume s" by simp_all
next
  assume h: "resource s = Some r \<and> volume_ctl r = Some g \<and> collect Mute True s = (sa, esa, ca)"
  then have "collect Mute True s = (sa, esa, ca)" "resource s = Some r" "volume_ctl r = Some g"
    by simp_all
  then show "resource sa
          = Some (r\<lparr>volume_ctl := Some (if muted sa then 0 else of_int (volume s) / 100)\<rparr>)"
    by (rule mute_toggle_gain)
next
  assume h: "\<not> muted s \<and> resource s = Some r \<and> volume_ctl r = Some g
        \<and> run p [Collect Mute True, Collect Mute True] s = (sb, esb)"
  then have "\<not> muted s" "resource s = Some r" "volume_ctl r = Some g"
    "run p [Collect Mute True, Collect Mute True] s = (sb, esb)" by simp_all
  then show "sb = s\<lparr>resource := Some (r\<lparr>volume_ctl := Some (of_int (volume s) / 100)\<rparr>)\<rparr>"
    by (rule double_toggle_sets_gain)
next
  assume h: "\<not> muted s \<and> resource s = Some r \<and> volume_ctl r = Some (of_int (volume s) / 100)
        \<and> run p [Collect Mute True, Collect Mute True] s = (sb, esb)"
  then have "gain_in_sync s" by (simp add: gain_in_sync_iff)
  from double_toggle[OF this] h show "sb = s" by blast
next
  assume h: "resource s0 = None \<and> (\<forall>ev\<in>set evs. \<not> is_play_raises ev) \<and> run p evs s0 = (s, es)
        \<and> \<not> muted s \<and> run p [Collect Mute True, Collect Mute True] s = (sb, esb)"
  then have "gain_in_sync s0" by (simp add: gain_in_sync_iff)
  from run_in_sync[OF this] h have "gain_in_sync s" by blast
  from double_toggle[OF this] h show "sb = s" by blast
qed

theorem mute_toggle_restores_gain_witness:
  "\<not> muted half_volume_session
   \<and> resource half_volume_session = Some \<lparr>metadata = 1, volume_ctl = Some (1 / 2)\<rparr>
   \<and> collect Mute True half_volume_session
       = (half_volume_session\<lparr>muted := True,
            resource := Some \<lparr>metadata = 1, volume_ctl = Some 0\<rparr>\<rparr>,
          [RemoveReaction, Send MutedSong], Returned)
   \<and> run False [Collect Mute True, Collect Mute True] half_volume_session
       = (half_volume_session,
          [RemoveReaction, Send MutedSong, RemoveReaction, Send UnmutedSong])
   \<and> \<not> muted stale_gain_session
   \<and> resource stale_gain_session = Some (track_resource 2)
   \<and> run False [Collect Mute True, Collect Mute True] stale_gain_session
       = (stale_gain_session\<lparr>resource := Some \<lparr>metadata = 2, volume_ctl = Some (1 / 2)\<rparr>\<rparr>,
          [RemoveReaction, Send MutedSong, RemoveReaction, Send UnmutedSong])
   \<and> resource idle_session = None
   \<and> filter is_play_raises
        [ProcessQueue, MakeResourceSettled (Plays (track_resource 1)), Collect VolumeDown True] = []
   \<and> run False [ProcessQueue, MakeResourceSettled (Plays (track_resource 1)), Collect VolumeDown True]
        idle_session
       = (idle_session\<lparr>volume := 90,
            resource := Some \<lparr>metadata = 1, volume_ctl = Some (9 / 10)\<rparr>\<rparr>,
          [MakeResource 1, PlayerPlay (Some (track_resource 1)), RemoveReaction,
           Send (DecreasedVolume 90)])
   \<and> run False [Collect Mute True, Collect Mute True]
        (idle_session\<lparr>volume := 90, resource := Some \<lparr>metadata = 1, volume_ctl = Some (9 / 10)\<rparr>\<rparr>)
       = (idle_session\<lparr>volume := 90,
            resource := Some \<lparr>metadata = 1, volume_ctl = Some (9 / 10)\<rparr>\<rparr>,
          [RemoveReaction, Send MutedSong, RemoveReaction, Send UnmutedSong])"
proof -
  let ?r = "\<lparr>metadata = 1, volume_ctl = Some (1 / 2)\<rparr> :: nat audio_resource"
  let ?sa = "half_volume_session\<lparr>muted := True,
            resource := Some \<lparr>metadata = 1, volume_ctl = Some 0\<rparr>\<rparr>"
  let ?two = "[RemoveReaction, Send MutedSong, RemoveReaction, Send UnmutedSong] :: nat effect list"
  let ?evs = "[ProcessQueue, MakeResourceSettled (Plays (track_resource 1)), Collect VolumeDown True]"
  let ?s = "idle_session\<lparr>volume := 90,
            resource := Some \<lparr>metadata = 1, volume_ctl = Some (9 / 10)\<rparr>\<rparr>"
  let ?es = "[MakeResource 1, PlayerPlay (Some (track_resource 1)), RemoveReaction,
           Send (DecreasedVolume 90)] :: nat effect list"
  have t1: "collect Mute True half_volume_session = (?sa, [RemoveReaction, Send MutedSong], Returned)"
    by (simp add: half_volume_session_def playing_session_def idle_session_def collect_def
        apply_gain_def setVolumeLogarithmic_def)
  have t2: "run False [Collect Mute True, Collect Mute True] half_volume_session
       = (half_volume_session, ?two)"
    by (simp add: half_volume_session_def playing_session_def idle_session_def step_def collect_def
        apply_gain_def setVolumeLogarithmic_def)
  have r1: "run False ?evs idle_session = (?s, ?es)"
    by (simp add: idle_session_def track_resource_def step_def processQueue_def
        processQueue_resume_def collect_def apply_gain_def setVolumeLogarithmic_def)
  have r2: "run False [Collect Mute True, Collect Mute True] ?s = (?s, ?two)"
    by (simp add: idle_session_def step_def collect_def apply_gain_def setVolumeLogarithmic_def)
  have q: "\<forall>ev\<in>set ?evs. \<not> is_play_raises ev" by (simp add: is_play_raises_def)
  have h: "\<not> muted half_volume_session" "resource half_volume_session = Some ?r"
    "volume_ctl ?r = Some (of_int (volume half_volume_session) / 100)"
    by (simp_all add: half_volume_session_def playing_session_def idle_session_def)
  have n: "resource idle_session = None" "\<not> muted ?s" by (simp_all add: idle_session_def)
  note local = mute_toggle_restores_gain [of half_volume_session ?sa "[RemoveReaction, Send MutedSong]" Returned
      ?r "1 / 2" False half_volume_session ?two idle_session "[]" "[]"]
  note reached = mute_toggle_restores_gain [of ?s ?s "[]" Returned ?r "1 / 2" False ?s ?two idle_session ?evs ?es]
  let ?halved = "stale_gain_session\<lparr>resource := Some \<lparr>metadata = 2, volume_ctl = Some (1 / 2)\<rparr>\<rparr>"
  have st: "\<not> muted stale_gain_session" "resource stale_gain_session = Some (track_resource 2)"
    "volume_ctl (track_resource 2) = Some 1" "volume stale_gain_session = 50"
    by (simp_all add: stale_gain_session_def half_volume_session_def playing_session_def
        idle_session_def track_resource_def)
  have t3: "run False [Collect Mute True, Collect Mute True] stale_gain_session = (?halved, ?two)"
    by (simp add: stale_gain_session_def half_volume_session_def playing_session_def
        idle_session_def track_resource_def step_def collect_def apply_gain_def
        setVolumeLogarithmic_def)
  note stale = mute_toggle_restores_gain [of stale_gain_session stale_gain_session "[]" Returned
      "track_resource 2" 1 False ?halved ?two idle_session "[]" "[]"]
  from stale st t3
  have d: "?halved = stale_gain_session\<lparr>resource :=
      Some ((track_resource 2)\<lparr>volume_ctl := Some (of_int (volume stale_gain_session) / 100)\<rparr>)\<rparr>"
    by blast
  from local t1 have a: "muted ?sa = (\<not> muted half_volume_session)" by blast
  from local h t2 have b: "half_volume_session = half_volume_session" by blast
  from reached n q r1 r2 have c: "?s = ?s" by blast
  from a b c d t1 t2 t3 r1 r2 h n st show ?thesis by (simp add: is_play_raises_def)
qed

text \<open>
  C10, as the claim states it, fails: an accepted volume-down while \<open>muted\<close> is true, from
  a volume of 10, applies the gain 0, not a non-zero gain.
\<close>

theorem volume_down_to_zero_counterexample:
  "muted quiet_session \<and> volume quiet_session \<noteq> 0
   \<and> resource quiet_session = Some \<lparr>metadata = 1, volume_ctl = Some 0\<rparr>
   \<and> collect VolumeDown True quiet_session
       = (quiet_session\<lparr>volume := 0\<rparr>, [RemoveReaction, Send (DecreasedVolume 0)], Returned)
   \<and> resource (quiet_session\<lparr>volume := 0\<rparr>) = Some \<lparr>metadata = 1, volume_ctl = Some 0\<rparr>"
  by (simp add: quiet_session_def playing_session_def idle_session_def track_resource_def
      collect_def apply_gain_def setVolumeLogarithmic_def)

text \<open>
  C10, amended. An accepted volume-up or volume-down input while \<open>muted\<close> is true leaves
  \<open>muted\<close> true and applies the gain \<open>volume / 100\<close> of the new volume to a resource
  with a volume control. That gain is zero exactly when the new volume is 0: for a
  volume-down, when the old volume is at most 10; for a volume-up, only from the
  out-of-range volume \<open>-10\<close>. Otherwise it overrides the mute. No handler other than the
  mute toggle reads or writes \<open>muted\<close>: run from a session in which the flag is set
  otherwise, any other event makes the same calls, ends the same way and yields the same
  session but for the flag.
\<close>

theorem volume_change_while_muted:
  "(muted s \<and> resource s = Some r \<and> volume_ctl r = Some g \<and> volume s \<noteq> 0
      \<and> collect VolumeDown True s = (sa, esa, ca) \<longrightarrow>
        muted sa \<and> volume sa = max (volume s - 10) 0
        \<and> resource sa = Some (r\<lparr>volume_ctl := Some (of_int (volume sa) / 100)\<rparr>)
        \<and> (of_int (volume sa) / 100 = (0::rat) \<longleftrightarrow> volume s \<le> 10))
   \<and> (muted s \<and> resource s = Some r \<and> volume_ctl r = Some g \<and> volume s \<noteq> 100
        \<and> collect VolumeUp True s = (sb, esb, cb) \<longrightarrow>
        muted sb \<and> volume sb = min (volume s + 10) 100
        \<and> resource sb = Some (r\<lparr>volume_ctl := Some (of_int (volume sb) / 100)\<rparr>)
        \<and> (of_int (volume sb) / 100 = (0::rat) \<longleftrightarrow> volume s = - 10))
   \<and> ((\<forall>b. ev \<noteq> Collect Mute b) \<longrightarrow>
        step p ev (s\<lparr>muted := m\<rparr>)
          = (case step p ev s of (s', es, c) \<Rightarrow> (s'\<lparr>muted := m\<rparr>, es, c)))"
proof (intro conjI impI)
  assume h: "muted s \<and> resource s = Some r \<and> volume_ctl r = Some g \<and> volume s \<noteq> 0
      \<and> collect VolumeDown True s = (sa, esa, ca)"
  then have "muted sa = muted s \<and> volume sa = max (volume s - 10) 0
         \<and> resource sa = Some (r\<lparr>volume_ctl := Some (of_int (volume sa) / 100)\<rparr>)"
    by (intro volume_down_gain[of s r g sa esa ca]) simp_all
  with h show "muted sa" "volume sa = max (volume s - 10) 0"
    "resource sa = Some (r\<lparr>volume_ctl := Some (of_int (volume sa) / 100)\<rparr>)"
    "of_int (volume sa) / 100 = (0::rat) \<longleftrightarrow> volume s \<le> 10"
    by auto
next
  assume h: "muted s \<and> resource s = Some r \<and> volume_ctl r = Some g \<and> volume s \<noteq> 100
        \<and> collect VolumeUp True s = (sb, esb, cb)"
  then have "muted sb = muted s \<and> volume sb = min (volume s + 10) 100
         \<and> resource sb = Some (r\<lparr>volume_ctl := Some (of_int (volume sb) / 100)\<rparr>)"
    by (intro volume_up_gain[of s r g sb esb cb]) simp_all
  with h show "muted sb" "volume sb = min (volume s + 10) 100"
    "resource sb = Some (r\<lparr>volume_ctl := Some (of_int (volume sb) / 100)\<rparr>)"
    "of_int (volume sb) / 100 = (0::rat) \<longleftrightarrow> volume s = - 10"
    by auto
next
  assume "\<forall>b. ev \<noteq> Collect Mute b"
  then show "step p ev (s\<lparr>muted := m\<rparr>)
          = (case step p ev s of (s', es, c) \<Rightarrow> (s'\<lparr>muted := m\<rparr>, es, c))"
    by (rule step_muted)
qed

theorem volume_change_while_muted_witness:
  "muted quiet_session \<and> resource quiet_session = Some \<lparr>metadata = 1, volume_ctl = Some 0\<rparr>
   \<and> volume quiet_session \<noteq> 100
   \<and> collect VolumeUp True quiet_session
       = (quiet_session\<lparr>volume := 20,
            resource := Some \<lparr>metadata = 1, volume_ctl = Some (1 / 5)\<rparr>\<rparr>,
          [RemoveReaction, Send (IncreasedVolume 20)], Returned)
   \<and> muted (quiet_session\<lparr>volume := 20,
            resource := Some \<lparr>metadata = 1, volume_ctl = Some (1 / 5)\<rparr>\<rparr>)
   \<and> volume (quiet_session\<lparr>volume := 40\<rparr>) \<noteq> 0
   \<and> collect VolumeDown True (quiet_session\<lparr>volume := 40\<rparr>)
       = (quiet_session\<lparr>volume := 30,
            resource := Some \<lparr>metadata = 1, volume_ctl = Some (3 / 10)\<rparr>\<rparr>,
          [RemoveReaction, Send (DecreasedVolume 30)], Returned)
   \<and> muted (quiet_session\<lparr>volume := 30,
            resource := Some \<lparr>metadata = 1, volume_ctl = Some (3 / 10)\<rparr>\<rparr>)
   \<and> step False PlayerError (quiet_session\<lparr>muted := False\<rparr>)
       = (quiet_session\<lparr>songs := [2], muted := False\<rparr>, [ConsoleError], Returned)"
proof -
  let ?r = "\<lparr>metadata = 1, volume_ctl = Some 0\<rparr> :: nat audio_resource"
  let ?up = "quiet_session\<lparr>volume := 20,
            resource := Some \<lparr>metadata = 1, volume_ctl = Some (1 / 5)\<rparr>\<rparr>"
  let ?down = "quiet_session\<lparr>volume := 30,
            resource := Some \<lparr>metadata = 1, volume_ctl = Some (3 / 10)\<rparr>\<rparr>"
  have q: "muted quiet_session" "resource quiet_session = Some ?r" "volume_ctl ?r = Some 0"
    "volume quiet_session \<noteq> 100"
    by (simp_all add: quiet_session_def playing_session_def idle_session_def)
  have q40: "muted (quiet_session\<lparr>volume := 40\<rparr>)" "resource (quiet_session\<lparr>volume := 40\<rparr>) = Some ?r"
    "volume (quiet_session\<lparr>volume := 40\<rparr>) \<noteq> 0"
    by (simp_all add: quiet_session_def playing_session_def idle_session_def)
  have up: "collect VolumeUp True quiet_session
      = (?up, [RemoveReaction, Send (IncreasedVolume 20)], Returned)"
    by (simp add: quiet_session_def playing_session_def idle_session_def collect_def
        apply_gain_def setVolumeLogarithmic_def)
  have down: "collect VolumeDown True (quiet_session\<lparr>volume := 40\<rparr>)
      = (?down, [RemoveReaction, Send (DecreasedVolume 30)], Returned)"
    by (simp add: quiet_session_def playing_session_def idle_session_def collect_def
        apply_gain_def setVolumeLogarithmic_def)
  have err: "step False PlayerError quiet_session
      = (quiet_session\<lparr>songs := [2]\<rparr>, [ConsoleError], Returned)"
    by (simp add: quiet_session_def playing_session_def idle_session_def step_def
        player_error_def advance_def processQueue_def)
  have other: "\<forall>b. (PlayerError :: nat event) \<noteq> Collect Mute b" by simp
  note louder = volume_change_while_muted [of quiet_session ?r 0 ?up "[]" Returned
      ?up "[RemoveReaction, Send (IncreasedVolume 20)]" Returned PlayerError False False]
  note softer = volume_change_while_muted [of "quiet_session\<lparr>volume := 40\<rparr>" ?r 0
      ?down "[RemoveReaction, Send (DecreasedVolume 30)]" Returned ?down "[]" Returned
      PlayerError False False]
  from louder q up have a: "muted ?up" by blast
  from softer q40 q(3) down have b: "muted ?down" by blast
  from louder other have "step False PlayerError (quiet_session\<lparr>muted := False\<rparr>)
      = (case step False PlayerError quiet_session of
           (s', es, c) \<Rightarrow> (s'\<lparr>muted := False\<rparr>, es, c))" by blast
  with err have c: "step False PlayerError (quiet_session\<lparr>muted := False\<rparr>)
      = (quiet_session\<lparr>songs := [2], muted := False\<rparr>, [ConsoleError], Returned)" by simp
  from q q40 up down a b c show ?thesis by simp
qed

end
